theory Spec2Isabelle
  imports Main "HOL-Library.Word"
begin

section \<open>Python values, exceptions and the log of effects\<close>

text \<open>
  The quiz solver of \<^verbatim>\<open>main.py\<close> is embedded function by function. A Python \<^verbatim>\<open>str\<close> is a
  \<^typ>\<open>string\<close>; its characters are the code points below 256. A Python float is kept as its
  IEEE-754 bit pattern and never computed with: every operation on floats is a parameter of the
  environment. The interpreter's cap on the number of digits of \<^verbatim>\<open>int(str)\<close> is taken at its
  default, 4300.
\<close>

datatype pyfloat = Float64 "64 word"

datatype pyval =
    PNone
  | PBool bool
  | PInt int
  | PFloat pyfloat
  | PStr string
  | PList "pyval list"
  | PDict "(string \<times> pyval) list"

text \<open>A raised exception, with the text \<^verbatim>\<open>str(e)\<close> gives.\<close>

datatype exn = Exception string

fun str_exn :: "exn \<Rightarrow> string" where
  "str_exn (Exception m) = m"

text \<open>Python's truth value of an object (\<^verbatim>\<open>if x:\<close>).\<close>

fun truthy :: "pyval \<Rightarrow> bool" where
  "truthy PNone = False"
| "truthy (PBool b) = b"
| "truthy (PInt i) = (i \<noteq> 0)"
| "truthy (PFloat (Float64 w)) = (push_bit 1 w \<noteq> 0)"
| "truthy (PStr s) = (s \<noteq> [])"
| "truthy (PList xs) = (xs \<noteq> [])"
| "truthy (PDict kvs) = (kvs \<noteq> [])"

text \<open>\<^verbatim>\<open>isinstance(x, dict)\<close> and \<^verbatim>\<open>d.get(k)\<close> (\<^verbatim>\<open>None\<close> when the key is missing).\<close>

fun is_dict :: "pyval \<Rightarrow> bool" where
  "is_dict (PDict kvs) = True"
| "is_dict v = False"

fun dict_get :: "pyval \<Rightarrow> string \<Rightarrow> pyval" where
  "dict_get (PDict kvs) k = (case map_of kvs k of None \<Rightarrow> PNone | Some v \<Rightarrow> v)"
| "dict_get v k = PNone"

fun has_key :: "pyval \<Rightarrow> string \<Rightarrow> bool" where
  "has_key (PDict kvs) k = (map_of kvs k \<noteq> None)"
| "has_key v k = False"

text \<open>
  A data frame as \<^verbatim>\<open>pandas.read_csv\<close> builds it: columns, each of one dtype. An \<^verbatim>\<open>int64\<close>
  column holds 64-bit two's complement values.
\<close>

datatype column =
    IntCol "64 word list"
  | FloatCol "pyfloat list"
  | ObjCol "string list"

type_synonym dataframe = "column list"

text \<open>
  Every call that leaves the process is recorded, most recent first: a browser navigation, a
  \<^verbatim>\<open>time.sleep\<close>, a prompt sent to the language model, a CSV download, a JSON POST. Of the
  printing only the header of a quiz step (line 61) is recorded, with the step's number and
  URL.
\<close>

datatype event =
    StartQuiz nat pyval
  | Goto pyval
  | Sleep nat
  | Generate string
  | ReadCsv string
  | Post string pyval

type_synonym log = "event list"

text \<open>
  The external collaborators. Each sees the log so far, so its answers may change from call to
  call.
  \<^item> \<open>goto\<close>: launching the browser and navigating (\<^verbatim>\<open>page.goto\<close>); \<open>Some e\<close> when it raises.
  \<^item> \<open>page_content\<close>: reading \<^verbatim>\<open>inner_text('body')\<close> and \<^verbatim>\<open>content()\<close>, closing the browser.
  \<^item> \<open>generate_content\<close>: the model call together with reading \<^verbatim>\<open>response.text\<close>.
  \<^item> \<open>read_csv\<close>: \<^verbatim>\<open>pd.read_csv(url, header=None)\<close>.
  \<^item> \<open>post\<close>: \<^verbatim>\<open>requests.post\<close>; the status code and what \<^verbatim>\<open>response.json()\<close> gives.
  \<^item> \<open>urljoin\<close>: \<^verbatim>\<open>urllib.parse.urljoin\<close>.
  \<^item> \<open>float_of_str\<close>: \<^verbatim>\<open>float(s)\<close>, \<open>None\<close> when it raises.
  \<^item> \<open>float_gt\<close>, \<open>float_sum\<close>, \<open>int_of_float\<close>: comparison of a float with an integer, the sum of
    a float column, and \<^verbatim>\<open>int(x)\<close> of a float.
\<close>

record env =
  goto :: "log \<Rightarrow> pyval \<Rightarrow> exn option"
  page_content :: "log \<Rightarrow> pyval \<Rightarrow> exn + (string \<times> string)"
  generate_content :: "log \<Rightarrow> string \<Rightarrow> exn + string"
  read_csv :: "log \<Rightarrow> string \<Rightarrow> exn + dataframe"
  post :: "log \<Rightarrow> string \<Rightarrow> pyval \<Rightarrow> exn + (nat \<times> (exn + pyval))"
  urljoin :: "pyval \<Rightarrow> string \<Rightarrow> exn + string"
  float_of_str :: "string \<Rightarrow> pyfloat option"
  float_gt :: "pyfloat \<Rightarrow> int \<Rightarrow> bool"
  float_sum :: "pyfloat list \<Rightarrow> pyfloat"
  int_of_float :: "pyfloat \<Rightarrow> exn + int"

section \<open>Characters and strings\<close>

text \<open>\<^verbatim>\<open>str.isspace\<close>, which is also the regular expression class \<^verbatim>\<open>\s\<close>.\<close>

definition is_space :: "char \<Rightarrow> bool" where
  "is_space c = (of_char c \<in> {9, 10, 11, 12, 13, 28, 29, 30, 31, 32, 133, 160 :: nat})"

text \<open>The class \<^verbatim>\<open>\d\<close>: below 256 the decimal digits are the ASCII ones.\<close>

definition is_digit :: "char \<Rightarrow> bool" where
  "is_digit c = (48 \<le> (of_char c :: nat) \<and> (of_char c :: nat) \<le> 57)"

text \<open>The class \<^verbatim>\<open>\w\<close>: alphanumeric characters and the underscore.\<close>

definition is_word :: "char \<Rightarrow> bool" where
  "is_word c = (let n = (of_char c :: nat) in
     (48 \<le> n \<and> n \<le> 57) \<or> (65 \<le> n \<and> n \<le> 90) \<or> n = 95 \<or> (97 \<le> n \<and> n \<le> 122)
     \<or> n \<in> {170, 178, 179, 181, 185, 186, 188, 189, 190}
     \<or> (192 \<le> n \<and> n \<noteq> 215 \<and> n \<noteq> 247))"

text \<open>\<^verbatim>\<open>str.lower\<close> on one character.\<close>

definition lower_char :: "char \<Rightarrow> char" where
  "lower_char c = (let n = (of_char c :: nat) in
     if (65 \<le> n \<and> n \<le> 90) \<or> (192 \<le> n \<and> n \<le> 222 \<and> n \<noteq> 215) then char_of (n + 32) else c)"

definition lower :: "string \<Rightarrow> string" where
  "lower s = map lower_char s"

text \<open>\<^verbatim>\<open>s.strip()\<close> and \<^verbatim>\<open>s.strip(chars)\<close>.\<close>

definition strip_by :: "(char \<Rightarrow> bool) \<Rightarrow> string \<Rightarrow> string" where
  "strip_by p s = rev (dropWhile p (rev (dropWhile p s)))"

definition strip :: "string \<Rightarrow> string" where
  "strip s = strip_by is_space s"

text \<open>\<^verbatim>\<open>s.startswith(p)\<close> and \<^verbatim>\<open>p in s\<close>.\<close>

fun startswith :: "string \<Rightarrow> string \<Rightarrow> bool" where
  "startswith s [] = True"
| "startswith [] (p # ps) = False"
| "startswith (c # cs) (p # ps) = (c = p \<and> startswith cs ps)"

fun contains :: "string \<Rightarrow> string \<Rightarrow> bool" where
  "contains [] p = (p = [])"
| "contains (c # cs) p = (startswith (c # cs) p \<or> contains cs p)"

text \<open>\<^verbatim>\<open>s.replace(c, '')\<close> for a single character \<^verbatim>\<open>c\<close>.\<close>

definition remove_char :: "char \<Rightarrow> string \<Rightarrow> string" where
  "remove_char c s = filter (\<lambda>d. d \<noteq> c) s"

text \<open>The decimal text of a natural number, as an f-string prints it.\<close>

fun digits_of :: "nat \<Rightarrow> string" where
  "digits_of n = (if n < 10 then [char_of (48 + n)] else digits_of (n div 10) @ [char_of (48 + n mod 10)])"

text \<open>
  \<^verbatim>\<open>int(s)\<close>: surrounding whitespace is dropped, one sign is allowed, and the digits may be
  grouped by single underscores. \<open>None\<close> where Python raises \<^verbatim>\<open>ValueError\<close>. The whitespace
  \<^verbatim>\<open>int\<close> drops is not all of \<^verbatim>\<open>str.isspace\<close>: the separators 28 to 31 are kept, and fail.
  A text of more than 4300 digits (underscores, sign and whitespace not counted) raises too.
\<close>

definition max_str_digits :: nat where
  "max_str_digits = 4300"

definition is_int_space :: "char \<Rightarrow> bool" where
  "is_int_space c = (of_char c \<in> {9, 10, 11, 12, 13, 32, 133, 160 :: nat})"

fun digit_groups :: "nat \<Rightarrow> string \<Rightarrow> nat option" where
  "digit_groups acc [] = Some acc"
| "digit_groups acc (c # cs) =
     (if is_digit c then digit_groups (10 * acc + (of_char c - 48)) cs
      else if c = CHR ''_'' then
        (case cs of
           [] \<Rightarrow> None
         | d # ds \<Rightarrow> if is_digit d then digit_groups (10 * acc + (of_char d - 48)) ds else None)
      else None)"

definition unsigned_of_str :: "string \<Rightarrow> nat option" where
  "unsigned_of_str s =
     (case s of
        [] \<Rightarrow> None
      | c # cs \<Rightarrow>
          if is_digit c then
            (if max_str_digits < length (filter is_digit s) then None
             else digit_groups (of_char c - 48) cs)
          else None)"

definition int_of_str :: "string \<Rightarrow> int option" where
  "int_of_str s =
     (case strip_by is_int_space s of
        [] \<Rightarrow> None
      | c # cs \<Rightarrow>
          if c = CHR ''-'' then map_option (\<lambda>n. - int n) (unsigned_of_str cs)
          else if c = CHR ''+'' then map_option int (unsigned_of_str cs)
          else map_option int (unsigned_of_str (c # cs)))"

section \<open>Regular expressions\<close>

text \<open>
  The patterns of the program use literals, bracket classes, greedy repetition of one class,
  optional groups, one capturing group and the word boundary \<^verbatim>\<open>\b\<close>. A pattern is a term of
  \<open>rx\<close> that follows the pattern's text symbol by symbol.
\<close>

datatype item = Ch char | Sp | Dg

datatype atom = Set "item list" | NSet "item list"

datatype rx =
    Eps
  | Str string
  | One atom
  | Rep nat atom
  | Seq rx rx
  | Opt rx
  | Grp rx
  | Bnd

text \<open>The flag is \<^verbatim>\<open>re.IGNORECASE\<close>.\<close>

fun item_ok :: "bool \<Rightarrow> item \<Rightarrow> char \<Rightarrow> bool" where
  "item_ok ic (Ch c) d = (if ic then lower_char c = lower_char d else c = d)"
| "item_ok ic Sp d = is_space d"
| "item_ok ic Dg d = is_digit d"

fun atom_ok :: "bool \<Rightarrow> atom \<Rightarrow> char \<Rightarrow> bool" where
  "atom_ok ic (Set its) d = list_ex (\<lambda>it. item_ok ic it d) its"
| "atom_ok ic (NSet its) d = (\<not> list_ex (\<lambda>it. item_ok ic it d) its)"

text \<open>
  A position in the subject: the character before it (if any), the text from it on, and what
  group 1 has captured.
\<close>

type_synonym mstate = "char option \<times> string \<times> string option"

text \<open>A literal, matched character by character.\<close>

fun lit :: "bool \<Rightarrow> string \<Rightarrow> mstate \<Rightarrow> mstate list" where
  "lit ic [] st = [st]"
| "lit ic (c # cs) (p, [], g) = []"
| "lit ic (c # cs) (p, d # ds, g) = (if item_ok ic (Ch c) d then lit ic cs (Some d, ds, g) else [])"

text \<open>
  Greedy repetition of a class, at least \<open>n\<close> times: the ways to go on, longest first, which is
  the order in which a backtracking matcher tries them.
\<close>

fun rep :: "bool \<Rightarrow> atom \<Rightarrow> nat \<Rightarrow> mstate \<Rightarrow> mstate list" where
  "rep ic a n (p, [], g) = (if n = 0 then [(p, [], g)] else [])"
| "rep ic a n (p, d # ds, g) =
     (if atom_ok ic a d then rep ic a (n - 1) (Some d, ds, g) else [])
     @ (if n = 0 then [(p, d # ds, g)] else [])"

fun at_boundary :: "char option \<Rightarrow> string \<Rightarrow> bool" where
  "at_boundary None [] = False"
| "at_boundary None (d # ds) = is_word d"
| "at_boundary (Some c) [] = is_word c"
| "at_boundary (Some c) (d # ds) = (is_word c \<noteq> is_word d)"

text \<open>All the ways a pattern matches at a position, in the matcher's order of preference.\<close>

fun ms :: "bool \<Rightarrow> rx \<Rightarrow> mstate \<Rightarrow> mstate list" where
  "ms ic Eps st = [st]"
| "ms ic (Str w) st = lit ic w st"
| "ms ic (One a) (p, r, g) =
     (case r of [] \<Rightarrow> [] | d # ds \<Rightarrow> if atom_ok ic a d then [(Some d, ds, g)] else [])"
| "ms ic (Rep n a) st = rep ic a n st"
| "ms ic (Seq x y) st = concat (map (ms ic y) (ms ic x st))"
| "ms ic (Opt x) st = ms ic x st @ [st]"
| "ms ic (Grp x) (p, r, g) =
     map (\<lambda>(p', r', g'). (p', r', Some (take (length r - length r') r))) (ms ic x (p, r, g))"
| "ms ic Bnd (p, r, g) = (if at_boundary p r then [(p, r, g)] else [])"

text \<open>A match object: \<^verbatim>\<open>group(0)\<close>, \<^verbatim>\<open>group(1)\<close>, and the text after the match.\<close>

record rmatch =
  whole :: string
  group1 :: "string option"
  after :: string
  before_end :: "char option"

text \<open>\<^verbatim>\<open>re.search\<close>: the first match at the leftmost position that has one.\<close>

definition match_at :: "bool \<Rightarrow> rx \<Rightarrow> char option \<Rightarrow> string \<Rightarrow> rmatch option" where
  "match_at ic r p s =
     (case ms ic r (p, s, None) of
        [] \<Rightarrow> None
      | (p', s', g) # _ \<Rightarrow>
          Some \<lparr>whole = take (length s - length s') s, group1 = g, after = s', before_end = p'\<rparr>)"

fun search_from :: "bool \<Rightarrow> rx \<Rightarrow> char option \<Rightarrow> string \<Rightarrow> rmatch option" where
  "search_from ic r p [] = match_at ic r p []"
| "search_from ic r p (c # cs) =
     (case match_at ic r p (c # cs) of
        Some m \<Rightarrow> Some m
      | None \<Rightarrow> search_from ic r (Some c) cs)"

definition re_search :: "bool \<Rightarrow> rx \<Rightarrow> string \<Rightarrow> rmatch option" where
  "re_search ic r s = search_from ic r None s"

text \<open>
  \<^verbatim>\<open>re.findall\<close> for a pattern without groups: the matches from left to right, each search
  starting where the last match ended (one character further after an empty match). The
  length tests always hold; they make the termination evident.
\<close>

function findall_from :: "bool \<Rightarrow> rx \<Rightarrow> char option \<Rightarrow> string \<Rightarrow> string list" where
  "findall_from ic r p s =
     (case search_from ic r p s of
        None \<Rightarrow> []
      | Some m \<Rightarrow>
          whole m #
          (if whole m \<noteq> [] \<and> length (after m) < length s
           then findall_from ic r (before_end m) (after m)
           else (case after m of
                   [] \<Rightarrow> []
                 | c # cs \<Rightarrow> if length cs < length s then findall_from ic r (Some c) cs else [])))"
  by pat_completeness auto
termination
  by (relation "measure (\<lambda>(ic, r, p, s). length s)") auto

definition re_findall :: "bool \<Rightarrow> rx \<Rightarrow> string \<Rightarrow> string list" where
  "re_findall ic r s = findall_from ic r None s"

text \<open>Sequences and classes, written as the pattern's text has them.\<close>

fun cat :: "rx list \<Rightarrow> rx" where
  "cat [] = Eps"
| "cat [r] = r"
| "cat (r # rs) = Seq r (cat rs)"

definition chars :: "string \<Rightarrow> item list" where
  "chars s = map Ch s"

definition dquote :: char where
  "dquote = CHR 0x22"

definition squote :: char where
  "squote = CHR 0x27"

definition backquote :: char where
  "backquote = CHR 0x60"

text \<open>\<^verbatim>\<open>[^\s<>"]\<close>, the characters a URL is read up to.\<close>

definition url_char :: atom where
  "url_char = NSet ([Sp] @ chars ''<>'' @ [Ch dquote])"

text \<open>
  Line 152: \<^verbatim>\<open>POST\s+(?:to\s+)?(?:JSON\s+to\s+)?([https://[^\s<>"]+/submit[^\s<>"]*)\<close>. The group opens
  with a bracket: \<^verbatim>\<open>[https://[^\s<>"]\<close> is one class, of the characters
  \<^verbatim>\<open>h t p s : / [ ^ < > "\<close> and whitespace.
\<close>

definition post_pattern :: rx where
  "post_pattern =
     cat [Str ''POST'', Rep 1 (Set [Sp]),
          Opt (cat [Str ''to'', Rep 1 (Set [Sp])]),
          Opt (cat [Str ''JSON'', Rep 1 (Set [Sp]), Str ''to'', Rep 1 (Set [Sp])]),
          Grp (cat [Rep 1 (Set (chars ''https://[^'' @ [Sp] @ chars ''<>'' @ [Ch dquote])),
                    Str ''/submit'', Rep 0 url_char])]"

text \<open>Line 154: \<^verbatim>\<open>(https://[^\s<>"]+/submit)\<close>.\<close>

definition submit_pattern :: rx where
  "submit_pattern = Grp (cat [Str ''https://'', Rep 1 url_char, Str ''/submit''])"

text \<open>Lines 183 and 193: \<^verbatim>\<open>https://[^\s<>"]+\<close>.\<close>

definition url_pattern :: rx where
  "url_pattern = cat [Str ''https://'', Rep 1 url_char]"

text \<open>Line 216: \<^verbatim>\<open>Scrape\s+([^\s]+)\<close>.\<close>

definition scrape_pattern :: rx where
  "scrape_pattern = cat [Str ''Scrape'', Rep 1 (Set [Sp]), Grp (Rep 1 (NSet [Sp]))]"

text \<open>Line 227: \<^verbatim>\<open>[Ss]ecret\s+code\s+is\s+(\d+)\<close>.\<close>

definition secret_pattern :: rx where
  "secret_pattern =
     cat [One (Set (chars ''Ss'')), Str ''ecret'', Rep 1 (Set [Sp]), Str ''code'',
          Rep 1 (Set [Sp]), Str ''is'', Rep 1 (Set [Sp]), Grp (Rep 1 (Set [Dg]))]"

text \<open>Line 232: \<^verbatim>\<open>\b(\d{5,})\b\<close>.\<close>

definition digits_pattern :: rx where
  "digits_pattern = cat [Bnd, Grp (Rep 5 (Set [Dg])), Bnd]"

text \<open>
  Lines 243 to 245: \<^verbatim>\<open>https?://[^\s<>"\'()]+\.csv\<close>, \<^verbatim>\<open>href=["\']([^"\']+\.csv)["\']\<close> and
  \<^verbatim>\<open>\(([^\)]+\.csv)\)\<close>.
\<close>

definition csv_patterns :: "rx list" where
  "csv_patterns =
     [cat [Str ''http'', Opt (Str ''s''), Str ''://'',
           Rep 1 (NSet ([Sp] @ chars ''<>'' @ [Ch dquote, Ch squote] @ chars ''()'')), Str ''.csv''],
      cat [Str ''href='', One (Set [Ch dquote, Ch squote]),
           Grp (cat [Rep 1 (NSet [Ch dquote, Ch squote]), Str ''.csv'']),
           One (Set [Ch dquote, Ch squote])],
      cat [Str ''('', Grp (cat [Rep 1 (NSet (chars '')'')), Str ''.csv'']), Str '')'']]"

text \<open>Line 272: \<^verbatim>\<open>[Cc]utoff[:\s]+(\d+)\<close>.\<close>

definition cutoff_pattern :: rx where
  "cutoff_pattern =
     cat [One (Set (chars ''Cc'')), Str ''utoff'', Rep 1 (Set [Ch CHR '':'', Sp]),
          Grp (Rep 1 (Set [Dg]))]"

text \<open>\<^verbatim>\<open>m.group(1)\<close> of a pattern that has the group.\<close>

definition grp1 :: "rmatch \<Rightarrow> string" where
  "grp1 m = (case group1 m of None \<Rightarrow> [] | Some g \<Rightarrow> g)"

section \<open>Fetching a page\<close>

text \<open>
  \<^verbatim>\<open>fetch_page_with_playwright\<close>, lines 126 to 145. The loop \<^verbatim>\<open>for attempt in range(retries)\<close>
  is the recursion on \<open>attempt\<close>; leaving the loop without a \<^verbatim>\<open>return\<close> gives \<^verbatim>\<open>None\<close>.
\<close>

function fetch_loop :: "env \<Rightarrow> pyval \<Rightarrow> nat \<Rightarrow> nat \<Rightarrow> log \<Rightarrow> (exn + (string \<times> string) option) \<times> log" where
  "fetch_loop E url retries attempt lg =
     (if attempt < retries then
        (let lg1 = Goto url # lg in
         case goto E lg1 url of
           Some e \<Rightarrow>
             if attempt < retries - 1
             then fetch_loop E url retries (attempt + 1) (Sleep 5 # lg1)
             else (Inl e, lg1)
         | None \<Rightarrow>
             (let lg2 = Sleep 2 # lg1 in
              case page_content E lg2 url of
                Inl e \<Rightarrow>
                  if attempt < retries - 1
                  then fetch_loop E url retries (attempt + 1) (Sleep 5 # lg2)
                  else (Inl e, lg2)
              | Inr pg \<Rightarrow> (Inr (Some pg), lg2)))
      else (Inr None, lg))"
  by pat_completeness auto
termination
  by (relation "measure (\<lambda>(E, url, retries, attempt, lg). retries - attempt)") auto

definition fetch_page_with_playwright :: "env \<Rightarrow> pyval \<Rightarrow> log \<Rightarrow> (exn + (string \<times> string) option) \<times> log" where
  "fetch_page_with_playwright E url lg = fetch_loop E url 3 0 lg"

text \<open>
  The caller unpacks the result into two names (\<^verbatim>\<open>page_text, page_html = ...\<close>), which raises
  on \<^verbatim>\<open>None\<close>.
\<close>

definition fetch_pair :: "env \<Rightarrow> pyval \<Rightarrow> log \<Rightarrow> (exn + (string \<times> string)) \<times> log" where
  "fetch_pair E url lg =
     (case fetch_page_with_playwright E url lg of
        (Inl e, lg') \<Rightarrow> (Inl e, lg')
      | (Inr None, lg') \<Rightarrow> (Inl (Exception ''cannot unpack non-iterable NoneType object''), lg')
      | (Inr (Some pg), lg') \<Rightarrow> (Inr pg, lg'))"

section \<open>The page analyzer\<close>

text \<open>
  The dictionary \<^verbatim>\<open>analyze_quiz_page\<close> returns, read with \<^verbatim>\<open>analysis.get('submit_url')\<close> and
  \<^verbatim>\<open>analysis.get('question', '')\<close>. The value under \<^verbatim>\<open>submit_url\<close> is whatever the function's
  variable holds at the \<^verbatim>\<open>return\<close>, \<^verbatim>\<open>None\<close> included.
\<close>

record analysis =
  get_submit_url :: "string option"
  get_question :: string

definition nl :: string where
  "nl = [CHR 0x0A]"

definition submit_prompt :: "string \<Rightarrow> string" where
  "submit_prompt page_text =
     nl @ ''Extract the submit URL from this page.'' @ nl @ nl @ ''Page:'' @ nl @ ''---'' @ nl
     @ page_text @ nl @ ''---'' @ nl @ nl @ ''Return ONLY the URL, nothing else.'' @ nl"

text \<open>
  The body of the \<^verbatim>\<open>try\<close> of lines 165 to 188: \<open>Inl\<close> is an exception of the model call,
  \<open>Inr (Some u)\<close> the \<^verbatim>\<open>return\<close> inside the block, \<open>Inr None\<close> the block running to its end.
\<close>

definition ask_model_for_url :: "env \<Rightarrow> string \<Rightarrow> log \<Rightarrow> (exn + string option) \<times> log" where
  "ask_model_for_url E page_text lg =
     (let prompt = submit_prompt page_text; lg1 = Generate prompt # lg in
      case generate_content E lg1 prompt of
        Inl e \<Rightarrow> (Inl e, lg1)
      | Inr text \<Rightarrow>
          (case re_search False url_pattern (strip text) of
             Some m \<Rightarrow> (Inr (Some (whole m)), lg1)
           | None \<Rightarrow> (Inr None, lg1)))"

text \<open>
  \<^verbatim>\<open>next((u for u in urls if 'submit' in u.lower()), None)\<close>, and the two defaults of lines 196
  to 202.
\<close>

definition first_submit_url :: "string list \<Rightarrow> string option" where
  "first_submit_url urls = List.find (\<lambda>u. contains (lower u) ''submit'') urls"

definition falsy_str :: "string option \<Rightarrow> bool" where
  "falsy_str u = (u = None \<or> u = Some [])"

definition default_submit_url :: string where
  "default_submit_url = ''https://tds-llm-analysis.s-anand.net/submit''"

definition fallback_submit_url :: "string \<Rightarrow> string option" where
  "fallback_submit_url page_text =
     (let urls = re_findall False url_pattern page_text;
          u1 = first_submit_url urls;
          u2 = (if falsy_str u1 \<and> urls \<noteq> [] then Some (hd urls) else u1);
          u3 = (if falsy_str u2 then Some default_submit_url else u2)
      in u3)"

text \<open>\<^verbatim>\<open>analyze_quiz_page\<close>, lines 148 to 209.\<close>

definition analyze_quiz_page :: "env \<Rightarrow> string \<Rightarrow> log \<Rightarrow> analysis \<times> log" where
  "analyze_quiz_page E page_text lg =
     (let m1 = re_search True post_pattern page_text;
          submit_url_match = (if m1 = None then re_search True submit_pattern page_text else m1)
      in case submit_url_match of
           Some m \<Rightarrow> (\<lparr>get_submit_url = group1 m, get_question = take 500 page_text\<rparr>, lg)
         | None \<Rightarrow>
             (case ask_model_for_url E page_text lg of
                (Inr (Some u), lg') \<Rightarrow> (\<lparr>get_submit_url = Some u, get_question = take 500 page_text\<rparr>, lg')
              | (Inr None, lg') \<Rightarrow>
                  (\<lparr>get_submit_url = fallback_submit_url page_text, get_question = take 500 page_text\<rparr>, lg')
              | (Inl e, lg') \<Rightarrow>
                  (\<lparr>get_submit_url = fallback_submit_url page_text, get_question = take 500 page_text\<rparr>, lg')))"

section \<open>The answer resolver\<close>

text \<open>Tool 1, lines 216 to 236: what is returned for the text of the scraped page.\<close>

definition extract_secret :: "string \<Rightarrow> string" where
  "extract_secret scraped_text =
     (case re_search False secret_pattern scraped_text of
        Some m \<Rightarrow> grp1 m
      | None \<Rightarrow>
          (case re_search False digits_pattern scraped_text of
             Some m \<Rightarrow> grp1 m
           | None \<Rightarrow> strip scraped_text))"

definition scrape_branch :: "env \<Rightarrow> string \<Rightarrow> pyval \<Rightarrow> log \<Rightarrow> (exn + pyval) \<times> log" where
  "scrape_branch E scrape_path base_url lg =
     (case urljoin E base_url scrape_path of
        Inl e \<Rightarrow> (Inl e, lg)
      | Inr scrape_url \<Rightarrow>
          (case fetch_pair E (PStr scrape_url) lg of
             (Inl e, lg') \<Rightarrow> (Inl e, lg')
           | (Inr (scraped_text, html), lg') \<Rightarrow> (Inr (PStr (extract_secret scraped_text)), lg')))"

text \<open>
  Tool 2. The loop over the patterns of lines 249 to 256: the first pattern that matches
  gives the URL, group 1 when the pattern has a group, stripped of quotes and brackets.
\<close>

fun find_csv_url :: "rx list \<Rightarrow> string \<Rightarrow> string option" where
  "find_csv_url [] content = None"
| "find_csv_url (pattern # rest) content =
     (case re_search True pattern content of
        Some m \<Rightarrow>
          Some (strip_by (\<lambda>c. c \<in> set ([dquote, squote] @ ''()<>''))
                  (case group1 m of Some g \<Rightarrow> g | None \<Rightarrow> whole m))
      | None \<Rightarrow> find_csv_url rest content)"

text \<open>
  \<^verbatim>\<open>df.select_dtypes(include=['number']).columns\<close>, and lines 284 to 290 on the first of
  them. The sum of an \<^verbatim>\<open>int64\<close> column is an \<^verbatim>\<open>int64\<close>: it wraps around.
\<close>

fun is_numeric :: "column \<Rightarrow> bool" where
  "is_numeric (IntCol vs) = True"
| "is_numeric (FloatCol fs) = True"
| "is_numeric (ObjCol ss) = False"

definition sum_above :: "env \<Rightarrow> column \<Rightarrow> int \<Rightarrow> exn + int" where
  "sum_above E col cutoff =
     (case col of
        IntCol vs \<Rightarrow> Inr (sint (sum_list (filter (\<lambda>v. cutoff < sint v) vs)))
      | FloatCol fs \<Rightarrow> int_of_float E (float_sum E (filter (\<lambda>f. float_gt E f cutoff) fs))
      | ObjCol ss \<Rightarrow> Inl (Exception ''not a numeric column''))"

text \<open>
  The body of the \<^verbatim>\<open>try\<close> of lines 266 to 295: \<open>Inl\<close> an exception, \<open>Inr (Some n)\<close> the
  \<^verbatim>\<open>return int(result)\<close>, \<open>Inr None\<close> the block running to its end (no cutoff, or no numeric
  column).
\<close>

definition csv_sum :: "env \<Rightarrow> string \<Rightarrow> string \<Rightarrow> log \<Rightarrow> (exn + int option) \<times> log" where
  "csv_sum E csv_url combined_content lg =
     (let lg1 = ReadCsv csv_url # lg in
      case read_csv E lg1 csv_url of
        Inl e \<Rightarrow> (Inl e, lg1)
      | Inr df \<Rightarrow>
          (case re_search False cutoff_pattern combined_content of
             None \<Rightarrow> (Inr None, lg1)
           | Some m \<Rightarrow>
               (case int_of_str (grp1 m) of
                  None \<Rightarrow> (Inl (Exception ''invalid literal for int()''), lg1)
                | Some cutoff \<Rightarrow>
                    (case filter is_numeric df of
                       [] \<Rightarrow> (Inr None, lg1)
                     | numeric_col # _ \<Rightarrow>
                         (case sum_above E numeric_col cutoff of
                            Inl e \<Rightarrow> (Inl e, lg1)
                          | Inr n \<Rightarrow> (Inr (Some n), lg1))))))"

text \<open>The fallback, lines 304 to 331.\<close>

definition answer_prompt :: "string \<Rightarrow> string \<Rightarrow> string" where
  "answer_prompt page_text question =
     nl @ ''Context:'' @ nl @ take 2000 page_text @ nl @ nl @ ''Question: '' @ question @ nl @ nl
     @ ''Answer (just the value):'' @ nl"

definition clean_answer :: "string \<Rightarrow> string" where
  "clean_answer text = remove_char squote (remove_char dquote (remove_char backquote (strip text)))"

text \<open>The handler of the inner \<^verbatim>\<open>try\<close>, lines 324 to 328.\<close>

definition bool_or_text :: "string \<Rightarrow> pyval" where
  "bool_or_text answer_text =
     (if lower answer_text \<in> set [''true'', ''yes''] then PBool True
      else if lower answer_text \<in> set [''false'', ''no''] then PBool False
      else PStr answer_text)"

definition typed_answer :: "env \<Rightarrow> string \<Rightarrow> pyval" where
  "typed_answer E answer_text =
     (if CHR ''.'' \<in> set answer_text then
        (case float_of_str E answer_text of
           Some f \<Rightarrow> PFloat f
         | None \<Rightarrow> bool_or_text answer_text)
      else
        (case int_of_str answer_text of
           Some i \<Rightarrow> PInt i
         | None \<Rightarrow> bool_or_text answer_text))"

definition gemini_fallback :: "env \<Rightarrow> string \<Rightarrow> string \<Rightarrow> log \<Rightarrow> pyval \<times> log" where
  "gemini_fallback E question page_text lg =
     (let prompt = answer_prompt page_text question; lg1 = Generate prompt # lg in
      case generate_content E lg1 prompt of
        Inl e \<Rightarrow> (PStr ''error'', lg1)
      | Inr text \<Rightarrow> (typed_answer E (clean_answer text), lg1))"

text \<open>Tool 2 and the fallback after it, lines 238 to 331.\<close>

definition csv_branch :: "env \<Rightarrow> string \<Rightarrow> string \<Rightarrow> string \<Rightarrow> pyval \<Rightarrow> log \<Rightarrow> (exn + pyval) \<times> log" where
  "csv_branch E question page_text page_html base_url lg =
     (let combined_content = page_text @ '' '' @ page_html in
      case find_csv_url csv_patterns combined_content of
        None \<Rightarrow> (case gemini_fallback E question page_text lg of (a, lg') \<Rightarrow> (Inr a, lg'))
      | Some u \<Rightarrow>
          if u = [] then (case gemini_fallback E question page_text lg of (a, lg') \<Rightarrow> (Inr a, lg'))
          else
            (case (if \<not> startswith u ''http'' then urljoin E base_url u else Inr u) of
               Inl e \<Rightarrow> (Inl e, lg)
             | Inr csv_url \<Rightarrow>
                 (case csv_sum E csv_url combined_content lg of
                    (Inr (Some n), lg') \<Rightarrow> (Inr (PInt n), lg')
                  | (Inr None, lg') \<Rightarrow>
                      (case gemini_fallback E question page_text lg' of (a, lg'') \<Rightarrow> (Inr a, lg''))
                  | (Inl e, lg') \<Rightarrow>
                      (case gemini_fallback E question page_text lg' of (a, lg'') \<Rightarrow> (Inr a, lg'')))))"

text \<open>\<^verbatim>\<open>solve_question\<close>, lines 212 to 331.\<close>

definition solve_question :: "env \<Rightarrow> string \<Rightarrow> string \<Rightarrow> string \<Rightarrow> pyval \<Rightarrow> log \<Rightarrow> (exn + pyval) \<times> log" where
  "solve_question E question page_text page_html base_url lg =
     (case re_search True scrape_pattern question of
        Some m \<Rightarrow> scrape_branch E (grp1 m) base_url lg
      | None \<Rightarrow> csv_branch E question page_text page_html base_url lg)"

section \<open>Submitting an answer\<close>

text \<open>The dictionary of lines 358 and 364.\<close>

definition failure :: "string \<Rightarrow> pyval" where
  "failure reason = PDict [(''correct'', PBool False), (''reason'', PStr reason)]"

text \<open>
  The loop of lines 351 to 364. A response whose status is not 200 is returned at once,
  as a failure; an exception (of the request, or of decoding the body) is retried.
\<close>

function post_loop :: "env \<Rightarrow> string \<Rightarrow> pyval \<Rightarrow> nat \<Rightarrow> nat \<Rightarrow> log \<Rightarrow> pyval \<times> log" where
  "post_loop E url payload retries attempt lg =
     (if attempt < retries then
        (let lg1 = Post url payload # lg in
         case post E lg1 url payload of
           Inr (status_code, body) \<Rightarrow>
             if status_code = 200 then
               (case body of
                  Inr v \<Rightarrow> (v, lg1)
                | Inl e \<Rightarrow>
                    if attempt < retries - 1
                    then post_loop E url payload retries (attempt + 1) (Sleep 5 # lg1)
                    else (failure (str_exn e), lg1))
             else (failure (''HTTP '' @ digits_of status_code), lg1)
         | Inl e \<Rightarrow>
             if attempt < retries - 1
             then post_loop E url payload retries (attempt + 1) (Sleep 5 # lg1)
             else (failure (str_exn e), lg1))
      else (PNone, lg))"
  by pat_completeness auto
termination
  by (relation "measure (\<lambda>(E, url, payload, retries, attempt, lg). retries - attempt)") auto

text \<open>
  \<^verbatim>\<open>submit_answer\<close>, lines 334 to 364. \<^verbatim>\<open>submit_url.startswith\<close> raises when \<^verbatim>\<open>submit_url\<close> is
  \<^verbatim>\<open>None\<close>, and \<^verbatim>\<open>urljoin\<close> may raise; both happen before the loop, outside its \<^verbatim>\<open>try\<close>.
\<close>

definition make_payload :: "string \<Rightarrow> string \<Rightarrow> pyval \<Rightarrow> pyval \<Rightarrow> pyval" where
  "make_payload email secret quiz_url answer =
     PDict [(''email'', PStr email), (''secret'', PStr secret), (''url'', quiz_url), (''answer'', answer)]"

definition submit_answer ::
  "env \<Rightarrow> string option \<Rightarrow> string \<Rightarrow> string \<Rightarrow> pyval \<Rightarrow> pyval \<Rightarrow> log \<Rightarrow> (exn + pyval) \<times> log" where
  "submit_answer E submit_url email secret quiz_url answer lg =
     (case submit_url of
        None \<Rightarrow> (Inl (Exception ''NoneType object has no attribute startswith''), lg)
      | Some u \<Rightarrow>
          (case (if \<not> startswith u ''http'' then urljoin E quiz_url u else Inr u) of
             Inl e \<Rightarrow> (Inl e, lg)
           | Inr url \<Rightarrow>
               (case post_loop E url (make_payload email secret quiz_url answer) 3 0 lg of
                  (v, lg') \<Rightarrow> (Inr v, lg'))))"

section \<open>One quiz, and the chain\<close>

text \<open>\<^verbatim>\<open>solve_single_quiz\<close>, lines 92 to 123.\<close>

definition solve_single_quiz :: "env \<Rightarrow> string \<Rightarrow> string \<Rightarrow> pyval \<Rightarrow> log \<Rightarrow> (exn + pyval) \<times> log" where
  "solve_single_quiz E email secret quiz_url lg =
     (case fetch_pair E quiz_url lg of
        (Inl e, lg1) \<Rightarrow> (Inl e, lg1)
      | (Inr (page_text, page_html), lg1) \<Rightarrow>
          (case analyze_quiz_page E page_text (Sleep 3 # lg1) of
             (analysis, lg2) \<Rightarrow>
               (case solve_question E (get_question analysis) page_text page_html quiz_url (Sleep 3 # lg2) of
                  (Inl e, lg3) \<Rightarrow> (Inl e, lg3)
                | (Inr answer, lg3) \<Rightarrow>
                    submit_answer E (get_submit_url analysis) email secret quiz_url answer lg3)))"

text \<open>
  How \<^verbatim>\<open>solve_quiz_chain\<close> leaves its loop: by the \<^verbatim>\<open>break\<close> after "Quiz chain complete!"
  (line 78), by the one after "Invalid response" (line 81), by the one of the handler (line
  85), or because the loop condition is false.
\<close>

datatype outcome = Complete | Invalid | Failed exn | Stopped

definition max_quizzes :: nat where
  "max_quizzes = 10"

text \<open>
  The loop of lines 59 to 85, from the values of \<^verbatim>\<open>current_url\<close> and \<^verbatim>\<open>quiz_count\<close> at its head.
  It returns how it ended, the final \<^verbatim>\<open>quiz_count\<close> and the log.
\<close>

function chain_loop :: "env \<Rightarrow> string \<Rightarrow> string \<Rightarrow> pyval \<Rightarrow> nat \<Rightarrow> log \<Rightarrow> outcome \<times> nat \<times> log" where
  "chain_loop E email secret current_url quiz_count lg =
     (if truthy current_url \<and> quiz_count < max_quizzes then
        (case solve_single_quiz E email secret current_url
                (StartQuiz (quiz_count + 1) current_url # lg) of
           (Inl e, lg') \<Rightarrow> (Failed e, quiz_count + 1, lg')
         | (Inr result, lg') \<Rightarrow>
             if truthy result \<and> is_dict result then
               (let next_url = dict_get result ''url'' in
                if truthy next_url
                then chain_loop E email secret next_url (quiz_count + 1) lg'
                else (Complete, quiz_count + 1, lg'))
             else (Invalid, quiz_count + 1, lg'))
      else (Stopped, quiz_count, lg))"
  by pat_completeness auto
termination
  by (relation "measure (\<lambda>(E, email, secret, current_url, quiz_count, lg). max_quizzes - quiz_count)") auto

text \<open>\<^verbatim>\<open>solve_quiz_chain\<close>, lines 50 to 89.\<close>

definition solve_quiz_chain :: "env \<Rightarrow> string \<Rightarrow> string \<Rightarrow> string \<Rightarrow> log \<Rightarrow> outcome \<times> nat \<times> log" where
  "solve_quiz_chain E email secret start_url lg = chain_loop E email secret (PStr start_url) 0 lg"

section \<open>Reading the log\<close>

text \<open>How many quiz steps, browser navigations, POST requests and five-second waits a log holds.\<close>

fun is_start :: "event \<Rightarrow> bool" where
  "is_start (StartQuiz n u) = True"
| "is_start ev = False"

fun is_goto :: "event \<Rightarrow> bool" where
  "is_goto (Goto u) = True"
| "is_goto ev = False"

fun is_post :: "event \<Rightarrow> bool" where
  "is_post (Post u v) = True"
| "is_post ev = False"

fun is_generate :: "event \<Rightarrow> bool" where
  "is_generate (Generate q) = True"
| "is_generate ev = False"

definition count_ev :: "(event \<Rightarrow> bool) \<Rightarrow> log \<Rightarrow> nat" where
  "count_ev p lg = length (filter p lg)"

definition delays :: "log \<Rightarrow> nat" where
  "delays lg = count_ev (\<lambda>ev. ev = Sleep 5) lg"

text \<open>
  The events of \<open>k\<close> attempts at \<open>a\<close> with a five-second wait between one attempt and the next.
\<close>

fun retry_trace :: "event \<Rightarrow> nat \<Rightarrow> log" where
  "retry_trace a 0 = []"
| "retry_trace a (Suc 0) = [a]"
| "retry_trace a (Suc (Suc k)) = a # Sleep 5 # retry_trace a (Suc k)"

text \<open>
  The last thing a fetch did raised \<open>e\<close>: the navigation, when the log ends with it, or the
  reading of the page, when the log ends with the wait before it.
\<close>

definition raised_last :: "env \<Rightarrow> pyval \<Rightarrow> log \<Rightarrow> exn \<Rightarrow> bool" where
  "raised_last E url lg e =
     (case lg of
        Goto u # _ \<Rightarrow> goto E lg url = Some e
      | Sleep n # _ \<Rightarrow> page_content E lg url = Inl e
      | _ \<Rightarrow> False)"

text \<open>
  What a submission returns, read off its last request (the one the log \<open>lg\<close> ends with): the
  decoded body of a response with status 200, the failure dictionary naming another status,
  or, only when the attempts are \<open>exhausted\<close>, the failure dictionary with the text of the
  exception.
\<close>

definition answered :: "env \<Rightarrow> string \<Rightarrow> pyval \<Rightarrow> log \<Rightarrow> pyval \<Rightarrow> bool \<Rightarrow> bool" where
  "answered E url payload lg v exhausted =
     (case post E lg url payload of
        Inr (status_code, body) \<Rightarrow>
          if status_code = 200 then
            (case body of
               Inr w \<Rightarrow> v = w
             | Inl e \<Rightarrow> exhausted \<and> v = failure (str_exn e))
          else v = failure (''HTTP '' @ digits_of status_code)
      | Inl e \<Rightarrow> exhausted \<and> v = failure (str_exn e))"

section \<open>Reading a pattern\<close>

text \<open>The least number of characters a match of a pattern holds.\<close>

fun minlen :: "rx \<Rightarrow> nat" where
  "minlen Eps = 0"
| "minlen (Str w) = length w"
| "minlen (One a) = 1"
| "minlen (Rep n a) = n"
| "minlen (Seq x y) = minlen x + minlen y"
| "minlen (Opt x) = 0"
| "minlen (Grp x) = minlen x"
| "minlen Bnd = 0"

text \<open>Every match of the pattern, from any position, has captured a group with the property \<open>Q\<close>.\<close>

definition captures :: "bool \<Rightarrow> rx \<Rightarrow> (string \<Rightarrow> bool) \<Rightarrow> bool" where
  "captures ic y Q = (\<forall>p r g p' r' g'. (p', r', g') \<in> set (ms ic y (p, r, g)) \<longrightarrow> (\<exists>v. g' = Some v \<and> Q v))"

text \<open>
  The sum the claims speak of: over the integers, of the values of an \<^verbatim>\<open>int64\<close> column that are
  strictly greater than the cutoff.
\<close>

definition exact_sum_above :: "64 word list \<Rightarrow> int \<Rightarrow> int" where
  "exact_sum_above vs cutoff = sum_list (map sint (filter (\<lambda>v. cutoff < sint v) vs))"

section \<open>Environments to run the program in\<close>

text \<open>No network: every navigation, model call, download and request raises.\<close>

definition offline :: env where
  "offline =
     \<lparr>goto = (\<lambda>lg u. Some (Exception ''net::ERR_INTERNET_DISCONNECTED'')),
      page_content = (\<lambda>lg u. Inl (Exception ''browser closed'')),
      generate_content = (\<lambda>lg q. Inl (Exception ''model unavailable'')),
      read_csv = (\<lambda>lg u. Inl (Exception ''URLError'')),
      post = (\<lambda>lg u v. Inl (Exception ''connection refused'')),
      urljoin = (\<lambda>b u. Inr u),
      float_of_str = (\<lambda>s. None),
      float_gt = (\<lambda>f c. False),
      float_sum = (\<lambda>fs. Float64 0),
      int_of_float = (\<lambda>f. Inr 0)\<rparr>"

text \<open>
  Every page loads, the model answers \<^verbatim>\<open>42\<close>, and every submission is judged wrong and answered
  with the URL of a next quiz.
\<close>

definition endless :: env where
  "endless =
     \<lparr>goto = (\<lambda>lg u. None),
      page_content = (\<lambda>lg u. Inr (''Question'', ''<p>Question</p>'')),
      generate_content = (\<lambda>lg q. Inr ''42''),
      read_csv = (\<lambda>lg u. Inl (Exception ''URLError'')),
      post = (\<lambda>lg u v. Inr (200, Inr (PDict [(''correct'', PBool False), (''reason'', PStr ''wrong''),
                                                  (''url'', PStr ''https://quiz.example/next'')]))),
      urljoin = (\<lambda>b u. Inr u),
      float_of_str = (\<lambda>s. None),
      float_gt = (\<lambda>f c. False),
      float_sum = (\<lambda>fs. Float64 0),
      int_of_float = (\<lambda>f. Inr 0)\<rparr>"

text \<open>The same, but the submission is judged correct and names no next quiz.\<close>

definition last_quiz :: env where
  "last_quiz = endless\<lparr>post := (\<lambda>lg u v. Inr (200, Inr (PDict [(''correct'', PBool True)])))\<rparr>"

text \<open>No network, but a model that answers \<^verbatim>\<open>Yes\<close> in backquotes, with spaces around.\<close>

definition yes_model :: env where
  "yes_model = offline\<lparr>generate_content := (\<lambda>lg q. Inr '' `Yes` '')\<rparr>"

text \<open>No network but for one CSV file, of the rows 1, 15, 22 and 3.\<close>

definition numbers_csv :: env where
  "numbers_csv = offline\<lparr>read_csv := (\<lambda>lg u. Inr [IntCol [1, 15, 22, 3]])\<rparr>"

text \<open>The same, with a file of two rows, each holding two to the power 62.\<close>

definition big_csv :: env where
  "big_csv = offline\<lparr>read_csv := (\<lambda>lg u. Inr [IntCol [4611686018427387904, 4611686018427387904]])\<rparr>"

text \<open>The character before a position that lies \<open>v\<close> after a position with \<open>p\<close> before it.\<close>

definition prev_char :: "char option \<Rightarrow> string \<Rightarrow> char option" where
  "prev_char p v = (if v = [] then p else Some (last v))"





section \<open>Retrying: fetch and submission\<close>

declare fetch_loop.simps [simp del]
declare post_loop.simps [simp del]
declare chain_loop.simps [simp del]

lemma retry_trace_snoc: "0 < k \<Longrightarrow> retry_trace a k @ [Sleep 5, a] = retry_trace a (Suc k)"
  by (induction a k rule: retry_trace.induct) auto

lemma fetch_loop_trace:
  "attempt < retries \<Longrightarrow>
   \<exists>k evs. snd (fetch_loop E url retries attempt lg) = evs @ lg
     \<and> 1 \<le> k \<and> k \<le> retries - attempt
     \<and> filter (\<lambda>ev. ev \<noteq> Sleep 2) evs = retry_trace (Goto url) k
     \<and> (\<forall>ev\<in>set evs. \<not> is_start ev \<and> \<not> is_post ev \<and> \<not> is_generate ev)
     \<and> fst (fetch_loop E url retries attempt lg) \<noteq> Inr None
     \<and> (\<forall>e. fst (fetch_loop E url retries attempt lg) = Inl e \<longrightarrow>
            k = retries - attempt \<and> raised_last E url (snd (fetch_loop E url retries attempt lg)) e)"
proof (induction E url retries attempt lg rule: fetch_loop.induct)
  case (1 E url retries attempt lg)
  let ?lg1 = "Goto url # lg"
  let ?lg2 = "Sleep 2 # ?lg1"
  show ?case
  proof (cases "goto E ?lg1 url")
    case (Some e)
    show ?thesis
    proof (cases "attempt < retries - 1")
      case True
      from True have lt: "attempt + 1 < retries" by simp
      from "1.IH"(2)[OF "1.prems" refl Some True lt]
      obtain k evs where h: "snd (fetch_loop E url retries (attempt + 1) (Sleep 5 # ?lg1)) = evs @ Sleep 5 # ?lg1"
        "1 \<le> k" "k \<le> retries - (attempt + 1)"
        "filter (\<lambda>ev. ev \<noteq> Sleep 2) evs = retry_trace (Goto url) k"
        "\<forall>ev\<in>set evs. \<not> is_start ev \<and> \<not> is_post ev \<and> \<not> is_generate ev"
        "fst (fetch_loop E url retries (attempt + 1) (Sleep 5 # ?lg1)) \<noteq> Inr None"
        "\<forall>e. fst (fetch_loop E url retries (attempt + 1) (Sleep 5 # ?lg1)) = Inl e \<longrightarrow>
            k = retries - (attempt + 1) \<and> raised_last E url (snd (fetch_loop E url retries (attempt + 1) (Sleep 5 # ?lg1))) e"
        by auto
      have eq: "fetch_loop E url retries attempt lg = fetch_loop E url retries (attempt + 1) (Sleep 5 # ?lg1)"
        using "1.prems" Some True by (subst fetch_loop.simps) simp
      show ?thesis
        apply (rule exI[of _ "Suc k"], rule exI[of _ "evs @ [Sleep 5, Goto url]"])
        using h True "1.prems" by (auto simp: eq retry_trace_snoc simp del: retry_trace.simps)
    next
      case False
      have eq: "fetch_loop E url retries attempt lg = (Inl e, ?lg1)"
        using "1.prems" Some False by (subst fetch_loop.simps) simp
      show ?thesis
        apply (rule exI[of _ "1"], rule exI[of _ "[Goto url]"])
        using False "1.prems" Some by (auto simp: eq raised_last_def)
    qed
  next
    case None
    show ?thesis
    proof (cases "page_content E ?lg2 url")
      case (Inr pg)
      have eq: "fetch_loop E url retries attempt lg = (Inr (Some pg), ?lg2)"
        using "1.prems" None Inr by (subst fetch_loop.simps) simp
      show ?thesis
        apply (rule exI[of _ "1"], rule exI[of _ "[Sleep 2, Goto url]"])
        using "1.prems" by (auto simp: eq)
    next
      case (Inl e)
      show ?thesis
      proof (cases "attempt < retries - 1")
        case True
        from True have lt: "attempt + 1 < retries" by simp
        from "1.IH"(1)[OF "1.prems" refl None refl Inl True lt]
        obtain k evs where h: "snd (fetch_loop E url retries (attempt + 1) (Sleep 5 # ?lg2)) = evs @ Sleep 5 # ?lg2"
          "1 \<le> k" "k \<le> retries - (attempt + 1)"
          "filter (\<lambda>ev. ev \<noteq> Sleep 2) evs = retry_trace (Goto url) k"
          "\<forall>ev\<in>set evs. \<not> is_start ev \<and> \<not> is_post ev \<and> \<not> is_generate ev"
          "fst (fetch_loop E url retries (attempt + 1) (Sleep 5 # ?lg2)) \<noteq> Inr None"
          "\<forall>e. fst (fetch_loop E url retries (attempt + 1) (Sleep 5 # ?lg2)) = Inl e \<longrightarrow>
              k = retries - (attempt + 1) \<and> raised_last E url (snd (fetch_loop E url retries (attempt + 1) (Sleep 5 # ?lg2))) e"
          by auto
        have eq: "fetch_loop E url retries attempt lg = fetch_loop E url retries (attempt + 1) (Sleep 5 # ?lg2)"
          using "1.prems" None Inl True by (subst fetch_loop.simps) simp
        show ?thesis
          apply (rule exI[of _ "Suc k"], rule exI[of _ "evs @ [Sleep 5, Sleep 2, Goto url]"])
          using h True "1.prems" by (auto simp: eq retry_trace_snoc simp del: retry_trace.simps)
      next
        case False
        have eq: "fetch_loop E url retries attempt lg = (Inl e, ?lg2)"
          using "1.prems" None Inl False by (subst fetch_loop.simps) simp
        show ?thesis
          apply (rule exI[of _ "1"], rule exI[of _ "[Sleep 2, Goto url]"])
          using False "1.prems" Inl by (auto simp: eq raised_last_def)
      qed
    qed
  qed
qed

lemma post_loop_trace:
  "attempt < retries \<Longrightarrow>
   \<exists>k. snd (post_loop E url payload retries attempt lg) = retry_trace (Post url payload) k @ lg
     \<and> 1 \<le> k \<and> k \<le> retries - attempt
     \<and> answered E url payload (snd (post_loop E url payload retries attempt lg))
          (fst (post_loop E url payload retries attempt lg)) (k = retries - attempt)"
proof (induction E url payload retries attempt lg rule: post_loop.induct)
  case (1 E url payload retries attempt lg)
  let ?lg1 = "Post url payload # lg"
  have stop: "post_loop E url payload retries attempt lg = (v, ?lg1) \<Longrightarrow>
      answered E url payload ?lg1 v (1 = retries - attempt) \<Longrightarrow> ?case" for v
    apply (rule exI[of _ "1"]) using "1.prems" by simp
  have go: ?case
    if eq: "post_loop E url payload retries attempt lg = post_loop E url payload retries (attempt + 1) (Sleep 5 # ?lg1)"
    and ih: "\<exists>k. snd (post_loop E url payload retries (attempt + 1) (Sleep 5 # ?lg1)) = retry_trace (Post url payload) k @ Sleep 5 # ?lg1
     \<and> 1 \<le> k \<and> k \<le> retries - (attempt + 1)
     \<and> answered E url payload (snd (post_loop E url payload retries (attempt + 1) (Sleep 5 # ?lg1)))
          (fst (post_loop E url payload retries (attempt + 1) (Sleep 5 # ?lg1))) (k = retries - (attempt + 1))"
    and lt: "attempt < retries - 1"
  proof -
    from ih obtain k where h: "snd (post_loop E url payload retries (attempt + 1) (Sleep 5 # ?lg1)) = retry_trace (Post url payload) k @ Sleep 5 # ?lg1"
      "1 \<le> k" "k \<le> retries - (attempt + 1)"
      "answered E url payload (snd (post_loop E url payload retries (attempt + 1) (Sleep 5 # ?lg1)))
          (fst (post_loop E url payload retries (attempt + 1) (Sleep 5 # ?lg1))) (k = retries - (attempt + 1))"
      by auto
    have t: "retry_trace (Post url payload) k @ Sleep 5 # ?lg1 = retry_trace (Post url payload) (Suc k) @ lg"
      using retry_trace_snoc[of k "Post url payload"] h(2) by (simp del: retry_trace.simps)
    have c: "(Suc k = retries - attempt) = (k = retries - (attempt + 1))" using lt by auto
    show ?thesis
      apply (rule exI[of _ "Suc k"]) using h lt by (simp add: eq t c del: retry_trace.simps)
  qed
  show ?case
  proof (cases "post E ?lg1 url payload")
    case (Inl e)
    show ?thesis
    proof (cases "attempt < retries - 1")
      case True
      from True have lt: "attempt + 1 < retries" by simp
      have eq: "post_loop E url payload retries attempt lg = post_loop E url payload retries (attempt + 1) (Sleep 5 # ?lg1)"
        using "1.prems" Inl True by (subst post_loop.simps) simp
      show ?thesis by (rule go[OF eq "1.IH"(1)[OF "1.prems" refl Inl True lt] True])
    next
      case False
      have eq: "post_loop E url payload retries attempt lg = (failure (str_exn e), ?lg1)"
        using "1.prems" Inl False by (subst post_loop.simps) simp
      show ?thesis
        apply (rule stop[OF eq]) using False "1.prems" Inl by (auto simp: answered_def)
    qed
  next
    case (Inr sb)
    obtain status_code body where sb: "sb = (status_code, body)" by (cases sb)
    show ?thesis
    proof (cases "status_code = 200")
      case False
      have eq: "post_loop E url payload retries attempt lg = (failure (''HTTP '' @ digits_of status_code), ?lg1)"
        using "1.prems" Inr sb False by (subst post_loop.simps) simp
      show ?thesis
        apply (rule stop[OF eq]) using False Inr sb by (simp add: answered_def)
    next
      case True
      note ok = True
      show ?thesis
      proof (cases body)
        case (Inr w)
        have eq: "post_loop E url payload retries attempt lg = (w, ?lg1)"
          using "1.prems" \<open>post E ?lg1 url payload = Inr sb\<close> sb ok Inr by (subst post_loop.simps) simp
        show ?thesis
          apply (rule stop[OF eq]) using ok \<open>post E ?lg1 url payload = Inr sb\<close> sb Inr by (simp add: answered_def)
      next
        case (Inl e)
        show ?thesis
        proof (cases "attempt < retries - 1")
          case True
          from True have lt: "attempt + 1 < retries" by simp
          have eq: "post_loop E url payload retries attempt lg = post_loop E url payload retries (attempt + 1) (Sleep 5 # ?lg1)"
            using "1.prems" \<open>post E ?lg1 url payload = Inr sb\<close> sb ok Inl True by (subst post_loop.simps) simp
          show ?thesis
            by (rule go[OF eq "1.IH"(2)[OF "1.prems" refl \<open>post E ?lg1 url payload = Inr sb\<close> sb[symmetric] ok Inl True lt] True])
        next
          case False
          have eq: "post_loop E url payload retries attempt lg = (failure (str_exn e), ?lg1)"
            using "1.prems" \<open>post E ?lg1 url payload = Inr sb\<close> sb ok Inl False by (subst post_loop.simps) simp
          show ?thesis
            apply (rule stop[OF eq]) using False "1.prems" \<open>post E ?lg1 url payload = Inr sb\<close> sb ok Inl by (auto simp: answered_def)
        qed
      qed
    qed
  qed
qed





section \<open>The chain driver\<close>

lemma count_ev_append: "count_ev p (xs @ ys) = count_ev p xs + count_ev p ys"
  by (simp add: count_ev_def)

lemma count_ev_none: "(\<forall>ev\<in>set evs. \<not> p ev) \<Longrightarrow> count_ev p (evs @ lg) = count_ev p lg"
  by (simp add: count_ev_def)

lemma set_retry_trace: "set (retry_trace a k) \<subseteq> {a, Sleep 5}"
  by (induction a k rule: retry_trace.induct) auto

lemma starts_fetch: "count_ev is_start (snd (fetch_page_with_playwright E url lg)) = count_ev is_start lg"
proof -
  from fetch_loop_trace[of 0 3 E url lg]
  obtain evs where "snd (fetch_loop E url 3 0 lg) = evs @ lg" "\<forall>ev\<in>set evs. \<not> is_start ev"
    by auto
  then show ?thesis by (simp add: fetch_page_with_playwright_def count_ev_none)
qed

lemma starts_fetch_pair: "count_ev is_start (snd (fetch_pair E url lg)) = count_ev is_start lg"
  using starts_fetch[of E url lg]
  by (auto simp: fetch_pair_def split: prod.splits sum.splits option.splits)

lemma starts_post_loop:
  "count_ev is_start (snd (post_loop E url payload 3 0 lg)) = count_ev is_start lg"
proof -
  from post_loop_trace[of 0 3 E url payload lg]
  obtain k where k: "snd (post_loop E url payload 3 0 lg) = retry_trace (Post url payload) k @ lg"
    by auto
  have "\<forall>ev\<in>set (retry_trace (Post url payload) k). \<not> is_start ev"
    using set_retry_trace[of "Post url payload" k] by auto
  with k show ?thesis by (simp add: count_ev_none)
qed

lemma starts_submit:
  "count_ev is_start (snd (submit_answer E su email secret quiz_url answer lg)) = count_ev is_start lg"
proof -
  have p: "\<And>u r l. post_loop E u (make_payload email secret quiz_url answer) 3 0 lg = (r, l)
      \<Longrightarrow> count_ev is_start l = count_ev is_start lg"
    using starts_post_loop[of E _ "make_payload email secret quiz_url answer" lg] by (metis snd_conv)
  show ?thesis
    by (auto simp: submit_answer_def split: option.splits sum.splits prod.splits dest!: p)
qed

lemma starts_analyze:
  "count_ev is_start (snd (analyze_quiz_page E page_text lg)) = count_ev is_start lg"
  by (auto simp: analyze_quiz_page_def ask_model_for_url_def Let_def count_ev_def
      split: option.splits sum.splits prod.splits)

lemma starts_gemini:
  "count_ev is_start (snd (gemini_fallback E question page_text lg)) = count_ev is_start lg"
  by (auto simp: gemini_fallback_def Let_def count_ev_def split: sum.splits)

lemma starts_csv_sum:
  "count_ev is_start (snd (csv_sum E csv_url combined lg)) = count_ev is_start lg"
  by (auto simp: csv_sum_def Let_def count_ev_def split: sum.splits option.splits list.splits)

lemma starts_scrape:
  "count_ev is_start (snd (scrape_branch E path base_url lg)) = count_ev is_start lg"
proof -
  have f: "\<And>u r l. fetch_pair E u lg = (r, l) \<Longrightarrow> count_ev is_start l = count_ev is_start lg"
    using starts_fetch_pair[of E _ lg] by (metis snd_conv)
  show ?thesis
    by (auto simp: scrape_branch_def split: sum.splits prod.splits dest!: f)
qed

lemma starts_csv_branch:
  "count_ev is_start (snd (csv_branch E question page_text page_html base_url lg)) = count_ev is_start lg"
proof -
  have g: "\<And>l a l'. gemini_fallback E question page_text l = (a, l') \<Longrightarrow> count_ev is_start l' = count_ev is_start l"
    using starts_gemini[of E question page_text] by (metis snd_conv)
  have c: "\<And>u c r l'. csv_sum E u c lg = (r, l') \<Longrightarrow> count_ev is_start l' = count_ev is_start lg"
    using starts_csv_sum[of E _ _ lg] by (metis snd_conv)
  show ?thesis
    by (auto simp: csv_branch_def Let_def split: sum.splits prod.splits option.splits if_splits dest!: g c)
qed

lemma starts_solve_question:
  "count_ev is_start (snd (solve_question E question page_text page_html base_url lg)) = count_ev is_start lg"
  by (simp add: solve_question_def starts_scrape starts_csv_branch split: option.splits)

lemma starts_single:
  "count_ev is_start (snd (solve_single_quiz E email secret quiz_url lg)) = count_ev is_start lg"
proof -
  have f: "\<And>r l. fetch_pair E quiz_url lg = (r, l) \<Longrightarrow> count_ev is_start l = count_ev is_start lg"
    using starts_fetch_pair[of E quiz_url lg] by simp
  have a: "\<And>t l r l'. analyze_quiz_page E t l = (r, l') \<Longrightarrow> count_ev is_start l' = count_ev is_start l"
    using starts_analyze by (metis snd_conv)
  have q: "\<And>a b c d l r l'. solve_question E a b c d l = (r, l') \<Longrightarrow> count_ev is_start l' = count_ev is_start l"
    using starts_solve_question by (metis snd_conv)
  have s: "\<And>a b l. count_ev is_start (snd (submit_answer E a email secret quiz_url b l)) = count_ev is_start l"
    by (rule starts_submit)
  have k: "\<And>l. count_ev is_start (Sleep 3 # l) = count_ev is_start l" by (simp add: count_ev_def)
  show ?thesis
    by (auto simp: solve_single_quiz_def s k split: sum.splits prod.splits dest!: f a q)
qed

lemma chain_loop_steps:
  "quiz_count \<le> max_quizzes \<Longrightarrow>
   quiz_count \<le> fst (snd (chain_loop E email secret current_url quiz_count lg))
   \<and> fst (snd (chain_loop E email secret current_url quiz_count lg)) \<le> max_quizzes
   \<and> count_ev is_start (snd (snd (chain_loop E email secret current_url quiz_count lg)))
       = count_ev is_start lg + (fst (snd (chain_loop E email secret current_url quiz_count lg)) - quiz_count)
   \<and> (fst (chain_loop E email secret current_url quiz_count lg) = Stopped \<and> truthy current_url
        \<longrightarrow> fst (snd (chain_loop E email secret current_url quiz_count lg)) = max_quizzes)"
proof (induction E email secret current_url quiz_count lg rule: chain_loop.induct)
  case (1 E email secret current_url quiz_count lg)
  show ?case
  proof (cases "truthy current_url \<and> quiz_count < max_quizzes")
    case False
    then show ?thesis using "1.prems" by (subst (1 2 3 4 5 6) chain_loop.simps) auto
  next
    case True
    let ?lg0 = "StartQuiz (quiz_count + 1) current_url # lg"
    obtain r lg' where s: "solve_single_quiz E email secret current_url ?lg0 = (r, lg')"
      by (cases "solve_single_quiz E email secret current_url ?lg0")
    have c: "count_ev is_start lg' = count_ev is_start lg + 1"
      using starts_single[of E email secret current_url ?lg0] s by (simp add: count_ev_def)
    show ?thesis
    proof (cases r)
      case (Inl e)
      have "chain_loop E email secret current_url quiz_count lg = (Failed e, quiz_count + 1, lg')"
        using True s Inl by (subst chain_loop.simps) simp
      then show ?thesis using True c by simp
    next
      case (Inr result)
      show ?thesis
      proof (cases "truthy result \<and> is_dict result")
        case False
        have "chain_loop E email secret current_url quiz_count lg = (Invalid, quiz_count + 1, lg')"
          using True s Inr False by (subst chain_loop.simps) auto
        then show ?thesis using True c by simp
      next
        case ok: True
        show ?thesis
        proof (cases "truthy (dict_get result ''url'')")
          case False
          have "chain_loop E email secret current_url quiz_count lg = (Complete, quiz_count + 1, lg')"
            using True s Inr ok False by (subst chain_loop.simps) auto
          then show ?thesis using True c by simp
        next
          case nxt: True
          have eq: "chain_loop E email secret current_url quiz_count lg
                 = chain_loop E email secret (dict_get result ''url'') (quiz_count + 1) lg'"
            using True s Inr ok nxt by (subst chain_loop.simps) auto
          have le: "quiz_count + 1 \<le> max_quizzes" using True by simp
          from "1.IH"[OF True s[symmetric] Inr ok refl nxt le] nxt c True
          show ?thesis unfolding eq by auto
        qed
      qed
    qed
  qed
qed

lemma count_ev_simps:
  "count_ev p [] = 0"
  "count_ev p (ev # lg) = (if p ev then Suc (count_ev p lg) else count_ev p lg)"
  by (simp_all add: count_ev_def)

lemma single_endless:
  "solve_single_quiz endless email secret u lg
     = (Inr (PDict [(''correct'', PBool False), (''reason'', PStr ''wrong''),
                          (''url'', PStr ''https://quiz.example/next'')]),
        Post default_submit_url (make_payload email secret u (PInt 42))
        # Generate (answer_prompt ''Question'' ''Question'')
        # Sleep 3 # Generate (submit_prompt ''Question'') # Sleep 3 # Sleep 2 # Goto u # lg)"
  by code_simp

lemma single_last_quiz:
  "solve_single_quiz last_quiz email secret u lg
     = (Inr (PDict [(''correct'', PBool True)]),
        Post default_submit_url (make_payload email secret u (PInt 42))
        # Generate (answer_prompt ''Question'' ''Question'')
        # Sleep 3 # Generate (submit_prompt ''Question'') # Sleep 3 # Sleep 2 # Goto u # lg)"
  by code_simp


text \<open>
  Claim C1. Whatever the start URL and whatever the collaborators answer, a chain run makes
  at most 10 quiz steps: the final \<^verbatim>\<open>quiz_count\<close> is at most 10 and is the number of steps
  the run started. A run that leaves the loop by its condition, from a non-empty start URL,
  has made exactly 10 steps; and with the count at 10 the loop is left at once, whatever
  the current URL.
\<close>

theorem chain_at_most_ten_steps:
  "fst (snd (solve_quiz_chain E email secret start_url lg)) \<le> 10
   \<and> count_ev is_start (snd (snd (solve_quiz_chain E email secret start_url lg)))
       = count_ev is_start lg + fst (snd (solve_quiz_chain E email secret start_url lg))
   \<and> (fst (solve_quiz_chain E email secret start_url lg) = Stopped \<and> start_url \<noteq> []
        \<longrightarrow> fst (snd (solve_quiz_chain E email secret start_url lg)) = 10)
   \<and> chain_loop E email secret current_url 10 lg = (Stopped, 10, lg)"
proof -
  have "chain_loop E email secret current_url 10 lg = (Stopped, 10, lg)"
    by (subst chain_loop.simps) (simp add: max_quizzes_def)
  then show ?thesis
    using chain_loop_steps[of 0 E email secret "PStr start_url" lg]
    by (simp add: solve_quiz_chain_def max_quizzes_def)
qed

text \<open>When every submission names a next quiz, the run stops after its tenth step.\<close>

theorem chain_at_most_ten_steps_witness:
  "fst (solve_quiz_chain endless ''a@b.c'' ''s3'' ''https://quiz.example/q1'' []) = Stopped
   \<and> ''https://quiz.example/q1'' \<noteq> []
   \<and> fst (snd (solve_quiz_chain endless ''a@b.c'' ''s3'' ''https://quiz.example/q1'' [])) = 10
   \<and> count_ev is_start (snd (snd (solve_quiz_chain endless ''a@b.c'' ''s3'' ''https://quiz.example/q1'' []))) = 10"
  using chain_at_most_ten_steps[of endless "''a@b.c''" "''s3''" "''https://quiz.example/q1''" "[]"]
  by (simp add: solve_quiz_chain_def chain_loop.simps single_endless max_quizzes_def count_ev_simps Let_def)

text \<open>
  Claim C4. In a step whose submission response is a dictionary without the key \<^verbatim>\<open>url\<close>, the
  loop is left: the chain returns with the log as that step left it, so nothing is fetched
  or submitted afterwards. The run ends as complete when the dictionary is not empty; for
  the response \<^verbatim>\<open>{"correct": true}\<close> it ends as complete.
\<close>

theorem halts_without_next_url:
  assumes "truthy current_url" and "quiz_count < max_quizzes"
    and "solve_single_quiz E email secret current_url (StartQuiz (quiz_count + 1) current_url # lg)
           = (Inr result, lg')"
    and "is_dict result" and "\<not> has_key result ''url''"
  shows "chain_loop E email secret current_url quiz_count lg
           = (if truthy result then Complete else Invalid, quiz_count + 1, lg')
         \<and> (result = PDict [(''correct'', PBool True)] \<longrightarrow>
              chain_loop E email secret current_url quiz_count lg = (Complete, quiz_count + 1, lg'))"
proof -
  obtain kvs where d: "result = PDict kvs" using assms(4) by (cases result) auto
  have n: "dict_get result ''url'' = PNone" using assms(5) d by simp
  have "chain_loop E email secret current_url quiz_count lg
           = (if truthy result then Complete else Invalid, quiz_count + 1, lg')"
    using assms n by (subst chain_loop.simps) simp
  then show ?thesis by auto
qed

text \<open>A first quiz answered with \<^verbatim>\<open>{"correct": true}\<close>: one step, then complete.\<close>

theorem halts_without_next_url_witness:
  "truthy (PStr ''https://quiz.example/q1'') \<and> 0 < max_quizzes
   \<and> solve_single_quiz last_quiz ''a@b.c'' ''s3'' (PStr ''https://quiz.example/q1'')
        [StartQuiz 1 (PStr ''https://quiz.example/q1'')]
      = (Inr (PDict [(''correct'', PBool True)]),
         [Post default_submit_url (make_payload ''a@b.c'' ''s3'' (PStr ''https://quiz.example/q1'') (PInt 42)),
          Generate (answer_prompt ''Question'' ''Question''), Sleep 3,
          Generate (submit_prompt ''Question''), Sleep 3, Sleep 2,
          Goto (PStr ''https://quiz.example/q1''), StartQuiz 1 (PStr ''https://quiz.example/q1'')])
   \<and> is_dict (PDict [(''correct'', PBool True)]) \<and> \<not> has_key (PDict [(''correct'', PBool True)]) ''url''
   \<and> solve_quiz_chain last_quiz ''a@b.c'' ''s3'' ''https://quiz.example/q1'' []
      = (Complete, 1,
         [Post default_submit_url (make_payload ''a@b.c'' ''s3'' (PStr ''https://quiz.example/q1'') (PInt 42)),
          Generate (answer_prompt ''Question'' ''Question''), Sleep 3,
          Generate (submit_prompt ''Question''), Sleep 3, Sleep 2,
          Goto (PStr ''https://quiz.example/q1''), StartQuiz 1 (PStr ''https://quiz.example/q1'')])"
  using halts_without_next_url[of "PStr ''https://quiz.example/q1''" 0 last_quiz "''a@b.c''" "''s3''" "[]"
          "PDict [(''correct'', PBool True)]"
          "[Post default_submit_url (make_payload ''a@b.c'' ''s3'' (PStr ''https://quiz.example/q1'') (PInt 42)),
          Generate (answer_prompt ''Question'' ''Question''), Sleep 3,
          Generate (submit_prompt ''Question''), Sleep 3, Sleep 2,
          Goto (PStr ''https://quiz.example/q1''), StartQuiz 1 (PStr ''https://quiz.example/q1'')]"]
  by (simp add: single_last_quiz max_quizzes_def solve_quiz_chain_def)



section \<open>What a match is\<close>

lemma lit_sound:
  "(p', r', g') \<in> set (lit ic w (p, r, g)) \<Longrightarrow>
   \<exists>v. r = v @ r' \<and> length v = length w \<and> list_all2 (\<lambda>c d. item_ok ic (Ch c) d) w v \<and> g' = g"
proof (induction w arbitrary: p r)
  case Nil
  then show ?case by simp
next
  case (Cons c cs)
  show ?case
  proof (cases r)
    case Nil
    with Cons.prems show ?thesis by simp
  next
    case (Cons d ds)
    with Cons.prems have ok: "item_ok ic (Ch c) d" and m: "(p', r', g') \<in> set (lit ic cs (Some d, ds, g))"
      by (auto split: if_splits)
    from Cons.IH[OF m] obtain v where "ds = v @ r'" "length v = length cs"
      "list_all2 (\<lambda>c d. item_ok ic (Ch c) d) cs v" "g' = g" by auto
    then show ?thesis using ok Cons by (intro exI[of _ "d # v"]) simp
  qed
qed

lemma rep_sound:
  "(p', r', g') \<in> set (rep ic a n (p, r, g)) \<Longrightarrow>
   \<exists>v. r = v @ r' \<and> n \<le> length v \<and> (\<forall>d\<in>set v. atom_ok ic a d) \<and> g' = g"
proof (induction r arbitrary: p n)
  case Nil
  then show ?case by (auto split: if_splits)
next
  case (Cons d ds)
  from Cons.prems consider
    (more) "atom_ok ic a d" "(p', r', g') \<in> set (rep ic a (n - 1) (Some d, ds, g))"
    | (stop) "n = 0" "(p', r', g') = (p, d # ds, g)"
    by (auto split: if_splits)
  then show ?case
  proof cases
    case more
    from Cons.IH[OF more(2)] obtain v where "ds = v @ r'" "n - 1 \<le> length v"
      "\<forall>d\<in>set v. atom_ok ic a d" "g' = g" by auto
    then show ?thesis using more(1) by (intro exI[of _ "d # v"]) auto
  next
    case stop
    then show ?thesis by (intro exI[of _ "[]"]) simp
  qed
qed

lemma ms_consumes:
  "(p', r', g') \<in> set (ms ic x (p, r, g)) \<Longrightarrow> \<exists>v. r = v @ r' \<and> minlen x \<le> length v"
proof (induction x arbitrary: p r g p' r' g')
  case Eps
  then show ?case by simp
next
  case (Str w)
  then show ?case using lit_sound[of p' r' g' ic w p r g] by auto
next
  case (One a)
  then show ?case by (auto split: list.splits if_splits)
next
  case (Rep n a)
  then show ?case using rep_sound[of p' r' g' ic a n p r g] by auto
next
  case (Seq x y)
  from Seq.prems obtain p1 r1 g1 where a: "(p1, r1, g1) \<in> set (ms ic x (p, r, g))"
    and b: "(p', r', g') \<in> set (ms ic y (p1, r1, g1))" by auto
  from Seq.IH(1)[OF a] obtain v where v: "r = v @ r1" "minlen x \<le> length v" by auto
  from Seq.IH(2)[OF b] obtain w where w: "r1 = w @ r'" "minlen y \<le> length w" by auto
  show ?case using v w by (intro exI[of _ "v @ w"]) simp
next
  case (Opt x)
  from Opt.prems consider "(p', r', g') \<in> set (ms ic x (p, r, g))" | "r' = r" by auto
  then show ?case
  proof cases
    case 1
    from Opt.IH[OF 1] show ?thesis by auto
  next
    case 2
    then show ?thesis by simp
  qed
next
  case (Grp x)
  then show ?case by auto
next
  case Bnd
  then show ?case by (auto split: if_splits)
qed

lemma ms_grp:
  "(p', r', g') \<in> set (ms ic (Grp x) (p, r, g)) \<Longrightarrow>
   \<exists>v g0. r = v @ r' \<and> g' = Some v \<and> (p', r', g0) \<in> set (ms ic x (p, r, g))"
proof -
  assume "(p', r', g') \<in> set (ms ic (Grp x) (p, r, g))"
  then obtain g0 where m: "(p', r', g0) \<in> set (ms ic x (p, r, g))"
    and g: "g' = Some (take (length r - length r') r)" by auto
  from ms_consumes[OF m] obtain v where "r = v @ r'" by auto
  then show ?thesis using m g by auto
qed

lemma match_at_Some:
  "match_at ic x p s = Some m \<Longrightarrow>
   \<exists>p' g. (p', after m, group1 m) \<in> set (ms ic x (p, s, None)) \<and> s = whole m @ after m
          \<and> minlen x \<le> length (whole m) \<and> before_end m = p'"
proof -
  assume a: "match_at ic x p s = Some m"
  then obtain p' s' g rest where l: "ms ic x (p, s, None) = (p', s', g) # rest"
    and m: "m = \<lparr>whole = take (length s - length s') s, group1 = g, after = s', before_end = p'\<rparr>"
    by (auto simp: match_at_def split: list.splits)
  have i: "(p', s', g) \<in> set (ms ic x (p, s, None))" using l by simp
  from ms_consumes[OF i] obtain v where "s = v @ s'" "minlen x \<le> length v" by auto
  then show ?thesis using i m by auto
qed

lemma search_from_Some:
  "search_from ic x p s = Some m \<Longrightarrow>
   \<exists>p0 pre s0. s = pre @ s0 \<and> match_at ic x p0 s0 = Some m"
proof (induction s arbitrary: p)
  case Nil
  then show ?case by auto
next
  case (Cons c cs)
  show ?case
  proof (cases "match_at ic x p (c # cs)")
    case (Some m')
    with Cons.prems have "match_at ic x p (c # cs) = Some m" by simp
    then have "c # cs = [] @ (c # cs) \<and> match_at ic x p (c # cs) = Some m" by simp
    then show ?thesis by blast
  next
    case None
    with Cons.prems have "search_from ic x (Some c) cs = Some m" by simp
    from Cons.IH[OF this] obtain p0 pre s0 where "cs = pre @ s0" "match_at ic x p0 s0 = Some m" by auto
    then have "c # cs = (c # pre) @ s0 \<and> match_at ic x p0 s0 = Some m" by simp
    then show ?thesis by blast
  qed
qed

lemma re_search_Some:
  assumes "re_search ic x s = Some m"
  shows "\<exists>pre p0 p'. s = pre @ whole m @ after m \<and> minlen x \<le> length (whole m)
      \<and> (p', after m, group1 m) \<in> set (ms ic x (p0, whole m @ after m, None))"
proof -
  from assms have "search_from ic x None s = Some m" by (simp add: re_search_def)
  from search_from_Some[OF this] obtain p0 pre s0 where a: "s = pre @ s0" "match_at ic x p0 s0 = Some m"
    by auto
  from match_at_Some[OF a(2)] obtain p' where b: "(p', after m, group1 m) \<in> set (ms ic x (p0, s0, None))"
    "s0 = whole m @ after m" "minlen x \<le> length (whole m)" by auto
  have "s = pre @ whole m @ after m \<and> minlen x \<le> length (whole m)
      \<and> (p', after m, group1 m) \<in> set (ms ic x (p0, whole m @ after m, None))"
    using a(1) b by simp
  then show ?thesis by (intro exI)
qed

lemma captures_Grp_min: "captures ic (Grp x) (\<lambda>v. minlen x \<le> length v)"
  unfolding captures_def
proof (intro allI impI)
  fix p r g p' r' g'
  assume a: "(p', r', g') \<in> set (ms ic (Grp x) (p, r, g))"
  from ms_grp[OF a] obtain v g0 where v: "r = v @ r'" "g' = Some v" "(p', r', g0) \<in> set (ms ic x (p, r, g))"
    by auto
  from ms_consumes[OF v(3)] v(1) have "minlen x \<le> length v" by auto
  with v(2) show "\<exists>v. g' = Some v \<and> minlen x \<le> length v" by simp
qed

lemma captures_Grp_Rep:
  "captures ic (Grp (Rep n a)) (\<lambda>v. n \<le> length v \<and> (\<forall>d\<in>set v. atom_ok ic a d))"
  unfolding captures_def
proof (intro allI impI)
  fix p r g p' r' g'
  assume a: "(p', r', g') \<in> set (ms ic (Grp (Rep n a)) (p, r, g))"
  from ms_grp[OF a] obtain v g0 where v: "r = v @ r'" "g' = Some v" "(p', r', g0) \<in> set (ms ic (Rep n a) (p, r, g))"
    by auto
  from v(3) have "(p', r', g0) \<in> set (rep ic a n (p, r, g))" by simp
  from rep_sound[OF this] v(1) have "n \<le> length v \<and> (\<forall>d\<in>set v. atom_ok ic a d)" by auto
  with v(2) show "\<exists>v. g' = Some v \<and> (n \<le> length v \<and> (\<forall>d\<in>set v. atom_ok ic a d))" by simp
qed

lemma captures_Seq: "captures ic y Q \<Longrightarrow> captures ic (Seq x y) Q"
  unfolding captures_def by (simp del: ms.simps(7) split_paired_All) (metis prod_cases3)

lemma captures_Seq_Bnd: "captures ic x Q \<Longrightarrow> captures ic (Seq x Bnd) Q"
  unfolding captures_def by (auto split: if_splits)

lemma captures_search:
  assumes "captures ic x Q" and "re_search ic x s = Some m"
  shows "\<exists>v. group1 m = Some v \<and> Q v"
proof -
  from re_search_Some[OF assms(2)] obtain p0 p' where
    "(p', after m, group1 m) \<in> set (ms ic x (p0, whole m @ after m, None))" by auto
  with assms(1) show ?thesis unfolding captures_def by blast
qed

lemma captures_Grp_nonempty:
  assumes "0 < minlen x"
  shows "captures ic (Grp x) (\<lambda>v. v \<noteq> [])"
  unfolding captures_def
proof (intro allI impI)
  fix p r g p' r' g'
  assume a: "(p', r', g') \<in> set (ms ic (Grp x) (p, r, g))"
  from captures_Grp_min[of ic x, unfolded captures_def, rule_format, OF a]
  obtain v where "g' = Some v" "minlen x \<le> length v" by auto
  with assms show "\<exists>v. g' = Some v \<and> v \<noteq> []" by auto
qed

lemma post_pattern_group:
  assumes "re_search True post_pattern s = Some m"
  shows "\<exists>v. group1 m = Some v \<and> v \<noteq> []"
proof -
  have "captures True post_pattern (\<lambda>v. v \<noteq> [])"
    unfolding post_pattern_def cat.simps
    apply (rule captures_Seq)+
    apply (rule captures_Grp_nonempty)
    apply simp
    done
  from captures_search[OF this assms] show ?thesis .
qed

lemma submit_pattern_group:
  assumes "re_search True submit_pattern s = Some m"
  shows "\<exists>v. group1 m = Some v \<and> v \<noteq> []"
proof -
  have "captures True submit_pattern (\<lambda>v. v \<noteq> [])"
    unfolding submit_pattern_def cat.simps
    apply (rule captures_Grp_nonempty)
    apply simp
    done
  from captures_search[OF this assms] show ?thesis .
qed

lemma url_pattern_whole:
  "re_search ic url_pattern s = Some m \<Longrightarrow> whole m \<noteq> []"
  by (drule re_search_Some) (auto simp: url_pattern_def)

lemma fallback_submit_url_Some: "\<exists>u. fallback_submit_url page_text = Some u \<and> u \<noteq> []"
  by (auto simp: fallback_submit_url_def Let_def falsy_str_def default_submit_url_def)

lemma prev_char_simps: "prev_char p [] = p" "prev_char p (v @ [c]) = Some c"
  "prev_char (Some d) v = prev_char q (d # v)" "prev_char (prev_char p u) v = prev_char p (u @ v)"
  by (auto simp: prev_char_def)


















section \<open>The page analyzer\<close>

text \<open>
  Claim C2. The page analyzer returns for every page text, whatever the model does: the value
  under \<^verbatim>\<open>submit_url\<close> is a string, never \<^verbatim>\<open>None\<close> and never empty, and the question is the
  first 500 characters of the page. When neither pattern of lines 152 and 154 matches, the
  model gives no URL (it raises, or its answer holds none) and the page holds no
  \<^verbatim>\<open>https://\<close> URL, the value is the default endpoint.
\<close>

theorem analyzer_total:
  "(\<exists>u. get_submit_url (fst (analyze_quiz_page E page_text lg)) = Some u \<and> u \<noteq> [])
   \<and> get_question (fst (analyze_quiz_page E page_text lg)) = take 500 page_text
   \<and> (re_search True post_pattern page_text = None
        \<and> re_search True submit_pattern page_text = None
        \<and> (\<forall>u. fst (ask_model_for_url E page_text lg) \<noteq> Inr (Some u))
        \<and> re_findall False url_pattern page_text = []
       \<longrightarrow> get_submit_url (fst (analyze_quiz_page E page_text lg)) = Some default_submit_url)"
proof (intro conjI)
  show "\<exists>u. get_submit_url (fst (analyze_quiz_page E page_text lg)) = Some u \<and> u \<noteq> []"
  proof (cases "re_search True post_pattern page_text")
    case (Some m)
    from post_pattern_group[OF Some] show ?thesis
      by (auto simp: analyze_quiz_page_def Some)
  next
    case None
    note n1 = None
    show ?thesis
    proof (cases "re_search True submit_pattern page_text")
      case (Some m)
      from submit_pattern_group[OF Some] show ?thesis
        by (auto simp: analyze_quiz_page_def n1 Some)
    next
      case None
      obtain r lg' where a: "ask_model_for_url E page_text lg = (r, lg')"
        by (cases "ask_model_for_url E page_text lg")
      have u: "r = Inr (Some u) \<Longrightarrow> u \<noteq> []" for u
        using a url_pattern_whole[of False "strip _"]
        by (auto simp: ask_model_for_url_def Let_def split: sum.splits option.splits)
      from fallback_submit_url_Some[of page_text] obtain d where
        d: "fallback_submit_url page_text = Some d" "d \<noteq> []" by auto
      show ?thesis
        using u d by (auto simp: analyze_quiz_page_def n1 None a split: sum.splits option.splits)
    qed
  qed
next
  show "get_question (fst (analyze_quiz_page E page_text lg)) = take 500 page_text"
    by (auto simp: analyze_quiz_page_def Let_def split: option.splits sum.splits prod.splits)
next
  show "re_search True post_pattern page_text = None
        \<and> re_search True submit_pattern page_text = None
        \<and> (\<forall>u. fst (ask_model_for_url E page_text lg) \<noteq> Inr (Some u))
        \<and> re_findall False url_pattern page_text = []
       \<longrightarrow> get_submit_url (fst (analyze_quiz_page E page_text lg)) = Some default_submit_url"
    by (auto simp: analyze_quiz_page_def Let_def fallback_submit_url_def first_submit_url_def falsy_str_def
        split: option.splits sum.splits prod.splits)
qed

text \<open>A page with no URL, and no model to ask: the default endpoint.\<close>

theorem analyzer_total_witness:
  "re_search True post_pattern ''What is 2 + 2?'' = None
   \<and> re_search True submit_pattern ''What is 2 + 2?'' = None
   \<and> fst (ask_model_for_url offline ''What is 2 + 2?'' []) = Inl (Exception ''model unavailable'')
   \<and> re_findall False url_pattern ''What is 2 + 2?'' = []
   \<and> analyze_quiz_page offline ''What is 2 + 2?'' []
      = (\<lparr>get_submit_url = Some ''https://tds-llm-analysis.s-anand.net/submit'',
           get_question = ''What is 2 + 2?''\<rparr>,
         [Generate (submit_prompt ''What is 2 + 2?'')])"
proof -
  have 1: "re_search True post_pattern ''What is 2 + 2?'' = None" by code_simp
  have 2: "re_search True submit_pattern ''What is 2 + 2?'' = None" by code_simp
  have 3: "ask_model_for_url offline ''What is 2 + 2?'' []
            = (Inl (Exception ''model unavailable''), [Generate (submit_prompt ''What is 2 + 2?'')])"
    by (simp add: ask_model_for_url_def offline_def Let_def)
  have 4: "re_findall False url_pattern ''What is 2 + 2?'' = []" by code_simp
  show ?thesis
    using analyzer_total[of offline "''What is 2 + 2?''" "[]"] 1 2 3 4
    by (simp add: analyze_quiz_page_def default_submit_url_def)
qed

section \<open>The submit URL on the page\<close>

















section \<open>The language-model fallback\<close>

lemma dropWhile_keeps: "c \<in> set s \<Longrightarrow> \<not> p c \<Longrightarrow> c \<in> set (dropWhile p s)"
  by (induction s) auto

lemma strip_by_keeps: "c \<in> set s \<Longrightarrow> \<not> p c \<Longrightarrow> c \<in> set (strip_by p s)"
  by (simp add: strip_by_def dropWhile_keeps)

lemma digit_groups_chars:
  "digit_groups acc cs = Some n \<Longrightarrow> \<forall>c\<in>set cs. is_digit c \<or> c = CHR ''_''"
  by (induction acc cs rule: digit_groups.induct) (auto split: if_splits list.splits)

lemma unsigned_of_str_chars:
  "unsigned_of_str s = Some n \<Longrightarrow> \<forall>c\<in>set s. is_digit c \<or> c = CHR ''_''"
  by (auto simp: unsigned_of_str_def split: list.splits if_splits dest: digit_groups_chars)

lemma dot_not_digit: "\<not> is_digit CHR ''.''" "\<not> is_int_space CHR ''.''"
  by (simp_all add: is_digit_def is_int_space_def)

lemma int_of_str_no_dot:
  assumes "CHR ''.'' \<in> set s"
  shows "int_of_str s = None"
proof (rule ccontr)
  assume "int_of_str s \<noteq> None"
  then obtain i where i: "int_of_str s = Some i" by auto
  have d: "CHR ''.'' \<in> set (strip_by is_int_space s)"
    using assms dot_not_digit(2) by (rule strip_by_keeps)
  obtain c cs where s: "strip_by is_int_space s = c # cs"
    using d by (cases "strip_by is_int_space s") auto
  from i s consider
    (neg) n where "c = CHR ''-''" "unsigned_of_str cs = Some n"
    | (pos) n where "c = CHR ''+''" "unsigned_of_str cs = Some n"
    | (plain) n where "unsigned_of_str (c # cs) = Some n"
    by (auto simp: int_of_str_def split: if_splits)
  then show False
  proof cases
    case neg
    from unsigned_of_str_chars[OF neg(2)] d s neg(1) dot_not_digit(1) show False by auto
  next
    case pos
    from unsigned_of_str_chars[OF pos(2)] d s pos(1) dot_not_digit(1) show False by auto
  next
    case plain
    from unsigned_of_str_chars[OF plain] d s dot_not_digit(1) show False by auto
  qed
qed

text \<open>
  Claim C9. In the fallback, the model's answer is stripped of surrounding whitespace and of
  backquotes and quotes, and the result is typed: an integer when \<^verbatim>\<open>int\<close> parses it; else a
  float when it holds a decimal point and \<^verbatim>\<open>float\<close> parses it; else \<^verbatim>\<open>True\<close> or \<^verbatim>\<open>False\<close>
  when its lower case is \<^verbatim>\<open>true\<close> or \<^verbatim>\<open>yes\<close>, \<^verbatim>\<open>false\<close> or \<^verbatim>\<open>no\<close>; else the stripped string.
  When the model call raises, the answer is the string \<^verbatim>\<open>error\<close>. The resolver comes to the
  fallback when the question has no scrape instruction and the page no CSV link.
\<close>

theorem fallback_answer_typing:
  "(generate_content E (Generate (answer_prompt page_text question) # lg)
        (answer_prompt page_text question) = Inr text \<longrightarrow>
      fst (gemini_fallback E question page_text lg) =
        (case int_of_str (clean_answer text) of
           Some i \<Rightarrow> PInt i
         | None \<Rightarrow>
             if CHR ''.'' \<in> set (clean_answer text) then
               (case float_of_str E (clean_answer text) of
                  Some f \<Rightarrow> PFloat f
                | None \<Rightarrow> bool_or_text (clean_answer text))
             else bool_or_text (clean_answer text))
      \<and> clean_answer text = filter (\<lambda>c. c \<noteq> backquote \<and> c \<noteq> dquote \<and> c \<noteq> squote) (strip text))
   \<and> (generate_content E (Generate (answer_prompt page_text question) # lg)
        (answer_prompt page_text question) = Inl e \<longrightarrow>
      fst (gemini_fallback E question page_text lg) = PStr ''error'')
   \<and> bool_or_text t =
        (if lower t = ''true'' \<or> lower t = ''yes'' then PBool True
         else if lower t = ''false'' \<or> lower t = ''no'' then PBool False
         else PStr t)
   \<and> (re_search True scrape_pattern question = None
        \<and> find_csv_url csv_patterns (page_text @ '' '' @ page_html) = None \<longrightarrow>
      solve_question E question page_text page_html base_url lg
        = (Inr (fst (gemini_fallback E question page_text lg)),
           snd (gemini_fallback E question page_text lg)))"
proof (intro conjI impI)
  assume g: "generate_content E (Generate (answer_prompt page_text question) # lg)
        (answer_prompt page_text question) = Inr text"
  show "fst (gemini_fallback E question page_text lg) =
        (case int_of_str (clean_answer text) of
           Some i \<Rightarrow> PInt i
         | None \<Rightarrow>
             if CHR ''.'' \<in> set (clean_answer text) then
               (case float_of_str E (clean_answer text) of
                  Some f \<Rightarrow> PFloat f
                | None \<Rightarrow> bool_or_text (clean_answer text))
             else bool_or_text (clean_answer text))"
    using g int_of_str_no_dot[of "clean_answer text"]
    by (auto simp: gemini_fallback_def typed_answer_def Let_def split: option.splits)
  show "clean_answer text = filter (\<lambda>c. c \<noteq> backquote \<and> c \<noteq> dquote \<and> c \<noteq> squote) (strip text)"
    by (simp add: clean_answer_def remove_char_def conj_commute conj_left_commute)
next
  assume "generate_content E (Generate (answer_prompt page_text question) # lg)
        (answer_prompt page_text question) = Inl e"
  then show "fst (gemini_fallback E question page_text lg) = PStr ''error''"
    by (simp add: gemini_fallback_def Let_def)
next
  show "bool_or_text t =
        (if lower t = ''true'' \<or> lower t = ''yes'' then PBool True
         else if lower t = ''false'' \<or> lower t = ''no'' then PBool False
         else PStr t)"
    by (simp add: bool_or_text_def)
next
  assume "re_search True scrape_pattern question = None
        \<and> find_csv_url csv_patterns (page_text @ '' '' @ page_html) = None"
  then show "solve_question E question page_text page_html base_url lg
        = (Inr (fst (gemini_fallback E question page_text lg)),
           snd (gemini_fallback E question page_text lg))"
    by (simp add: solve_question_def csv_branch_def Let_def split: prod.splits)
qed

text \<open>The answer \<^verbatim>\<open>Yes\<close> becomes \<^verbatim>\<open>True\<close>; a model that raises gives \<^verbatim>\<open>error\<close>.\<close>

theorem fallback_answer_typing_witness:
  "generate_content yes_model (Generate (answer_prompt ''Is 7 prime?'' ''Is 7 prime?'') # [])
        (answer_prompt ''Is 7 prime?'' ''Is 7 prime?'') = Inr '' `Yes` ''
   \<and> clean_answer '' `Yes` '' = ''Yes''
   \<and> int_of_str ''Yes'' = None
   \<and> generate_content offline (Generate (answer_prompt ''Is 7 prime?'' ''Is 7 prime?'') # [])
        (answer_prompt ''Is 7 prime?'' ''Is 7 prime?'') = Inl (Exception ''model unavailable'')
   \<and> re_search True scrape_pattern ''Is 7 prime?'' = None
   \<and> find_csv_url csv_patterns (''Is 7 prime?'' @ '' '' @ ''<p>Is 7 prime?</p>'') = None
   \<and> solve_question yes_model ''Is 7 prime?'' ''Is 7 prime?'' ''<p>Is 7 prime?</p>'' (PStr ''https://quiz.example/q1'') []
       = (Inr (PBool True), [Generate (answer_prompt ''Is 7 prime?'' ''Is 7 prime?'')])
   \<and> solve_question offline ''Is 7 prime?'' ''Is 7 prime?'' ''<p>Is 7 prime?</p>'' (PStr ''https://quiz.example/q1'') []
       = (Inr (PStr ''error''), [Generate (answer_prompt ''Is 7 prime?'' ''Is 7 prime?'')])"
proof -
  have 1: "clean_answer '' `Yes` '' = ''Yes''" by code_simp
  have 2: "int_of_str ''Yes'' = None" by code_simp
  have 3: "re_search True scrape_pattern ''Is 7 prime?'' = None" by code_simp
  have 4: "find_csv_url csv_patterns (''Is 7 prime?'' @ '' '' @ ''<p>Is 7 prime?</p>'') = None" by code_simp
  have 5: "bool_or_text ''Yes'' = PBool True" by code_simp
  have 6: "gemini_fallback yes_model ''Is 7 prime?'' ''Is 7 prime?'' []
            = (typed_answer yes_model ''Yes'', [Generate (answer_prompt ''Is 7 prime?'' ''Is 7 prime?'')])"
    using 1 by (simp add: gemini_fallback_def yes_model_def Let_def)
  have 7: "gemini_fallback offline ''Is 7 prime?'' ''Is 7 prime?'' []
            = (PStr ''error'', [Generate (answer_prompt ''Is 7 prime?'' ''Is 7 prime?'')])"
    by (simp add: gemini_fallback_def offline_def Let_def)
  show ?thesis
    using fallback_answer_typing[of yes_model "''Is 7 prime?''" "''Is 7 prime?''" "[]" "'' `Yes` ''" "Exception ''x''" "''Yes''"
            "''<p>Is 7 prime?</p>''" "PStr ''https://quiz.example/q1''"]
          fallback_answer_typing[of offline "''Is 7 prime?''" "''Is 7 prime?''" "[]" "''''" "Exception ''model unavailable''" "''Yes''"
            "''<p>Is 7 prime?</p>''" "PStr ''https://quiz.example/q1''"]
          1 2 3 4 5 6 7
    by (simp add: yes_model_def offline_def)
qed

section \<open>The tabular branch\<close>

lemma sint_sum_list_exact:
  fixes ws :: "64 word list"
  assumes "\<forall>w\<in>set ws. 0 \<le> sint w" and "sum_list (map sint ws) < 2 ^ 63"
  shows "sint (sum_list ws) = sum_list (map sint ws)"
  using assms
proof (induction ws)
  case Nil
  then show ?case by simp
next
  case (Cons w ws)
  have nn: "0 \<le> sum_list (map sint ws)"
    using Cons.prems(1) by (intro sum_list_nonneg) auto
  have w0: "0 \<le> sint w" using Cons.prems(1) by simp
  have lt: "sum_list (map sint ws) < 2 ^ 63" using Cons.prems(2) w0 by simp
  have ih: "sint (sum_list ws) = sum_list (map sint ws)"
    using Cons.IH Cons.prems(1) lt by simp
  have "sint (w + sum_list ws) = signed_take_bit 63 (sint w + sint (sum_list ws))"
    by (simp add: sint_word_add)
  also have "\<dots> = sint w + sum_list (map sint ws)"
    using Cons.prems(2) w0 nn by (simp add: ih signed_take_bit_int_eq_self)
  finally show ?case by simp
qed

lemma sum_list_filter_mono:
  fixes f :: "'a \<Rightarrow> int"
  assumes "\<forall>x\<in>set xs. P2 x \<longrightarrow> P1 x" and "\<forall>x\<in>set xs. P1 x \<longrightarrow> 0 \<le> f x"
  shows "sum_list (map f (filter P2 xs)) \<le> sum_list (map f (filter P1 xs))"
  using assms by (induction xs) auto

lemma exact_sum_above_mono:
  assumes "0 \<le> c1" and "c1 \<le> c2"
  shows "exact_sum_above vs c2 \<le> exact_sum_above vs c1"
  unfolding exact_sum_above_def
  using assms by (intro sum_list_filter_mono) auto

lemma sum_above_exact:
  assumes "0 \<le> c" and "exact_sum_above vs c < 2 ^ 63"
  shows "sum_above E (IntCol vs) c = Inr (exact_sum_above vs c)"
proof -
  have "sint (sum_list (filter (\<lambda>v. c < sint v) vs)) = sum_list (map sint (filter (\<lambda>v. c < sint v) vs))"
    using assms by (intro sint_sum_list_exact) (auto simp: exact_sum_above_def)
  then show ?thesis by (simp add: sum_above_def exact_sum_above_def)
qed

text \<open>
  Claim C6, as stated, fails: the sum of an \<^verbatim>\<open>int64\<close> column is computed in 64 bits. For the
  column of two rows holding two to the power 62, the cutoff 0 gives the wrapped sum, which
  is negative, and the larger cutoff two to the power 62 gives 0, which is more.
\<close>

theorem cutoff_monotone_counterexample:
  "sum_above big_csv (IntCol [4611686018427387904, 4611686018427387904]) 0 = Inr (- 9223372036854775808)
   \<and> sum_above big_csv (IntCol [4611686018427387904, 4611686018427387904]) 4611686018427387904 = Inr 0
   \<and> (0::int) \<le> 4611686018427387904
   \<and> \<not> ((0::int) \<le> - 9223372036854775808)"
  by (simp add: sum_above_def)

text \<open>
  Claim C6, amended. For an \<^verbatim>\<open>int64\<close> column and cutoffs \<open>0 \<le> c1 \<le> c2\<close> (a cutoff is read from
  digits, so it is never negative), if the exact sum of the values above \<open>c1\<close> is below two to
  the power 63, then both sums are the exact ones and the sum for \<open>c2\<close> is at most the sum
  for \<open>c1\<close>.
\<close>

theorem cutoff_monotone:
  assumes "0 \<le> c1" and "c1 \<le> c2" and "exact_sum_above vs c1 < 2 ^ 63"
  shows "sum_above E (IntCol vs) c1 = Inr (exact_sum_above vs c1)
       \<and> sum_above E (IntCol vs) c2 = Inr (exact_sum_above vs c2)
       \<and> exact_sum_above vs c2 \<le> exact_sum_above vs c1"
proof -
  have m: "exact_sum_above vs c2 \<le> exact_sum_above vs c1"
    using assms(1,2) by (rule exact_sum_above_mono)
  have "0 \<le> c2" using assms by simp
  moreover have "exact_sum_above vs c2 < 2 ^ 63" using m assms(3) by simp
  ultimately show ?thesis using sum_above_exact[OF assms(1,3)] sum_above_exact[of c2 vs] m by simp
qed

text \<open>The rows 1, 15, 22, 3: 40 above the cutoff 2, and 37 above the cutoff 10.\<close>

theorem cutoff_monotone_witness:
  "(0::int) \<le> 2 \<and> (2::int) \<le> 10 \<and> exact_sum_above [1, 15, 22, 3] 2 < 2 ^ 63
   \<and> sum_above numbers_csv (IntCol [1, 15, 22, 3]) 2 = Inr 40
   \<and> sum_above numbers_csv (IntCol [1, 15, 22, 3]) 10 = Inr 37"
proof -
  have e: "exact_sum_above [1, 15, 22, 3] 2 = 40" "exact_sum_above [1, 15, 22, 3] 10 = 37"
    by (simp_all add: exact_sum_above_def)
  show ?thesis
    using cutoff_monotone[of 2 10 "[1, 15, 22, 3]" numbers_csv] e by simp
qed

lemma dropWhile_id: "s \<noteq> [] \<Longrightarrow> \<not> p (hd s) \<Longrightarrow> dropWhile p s = s"
  by (cases s) auto

lemma strip_by_id:
  assumes "s \<noteq> []" and "\<not> p (hd s)" and "\<not> p (last s)"
  shows "strip_by p s = s"
proof -
  have "dropWhile p s = s" using assms(1,2) by (rule dropWhile_id)
  moreover have "dropWhile p (rev s) = rev s"
    using assms(1,3) by (intro dropWhile_id) (auto simp: hd_rev)
  ultimately show ?thesis by (simp add: strip_by_def)
qed

lemma digit_groups_total:
  "\<forall>c\<in>set cs. is_digit c \<Longrightarrow> \<exists>n. digit_groups acc cs = Some n"
  by (induction cs arbitrary: acc) auto

lemma digit_facts:
  "is_digit c \<Longrightarrow> \<not> is_int_space c" "is_digit c \<Longrightarrow> c \<noteq> CHR ''-''" "is_digit c \<Longrightarrow> c \<noteq> CHR ''+''"
  by (auto simp: is_digit_def is_int_space_def)

lemma int_of_str_digits:
  assumes "s \<noteq> []" and "\<forall>c\<in>set s. is_digit c" and "length s \<le> max_str_digits"
  shows "\<exists>n. int_of_str s = Some (int n)"
proof -
  obtain c cs where s: "s = c # cs" using assms(1) by (cases s) auto
  have c: "is_digit c" and cs: "\<forall>d\<in>set cs. is_digit d" using assms(2) s by auto
  have "strip_by is_int_space s = s"
    using assms by (intro strip_by_id) (auto simp: digit_facts)
  moreover obtain n where "digit_groups (of_char c - 48) cs = Some n"
    using digit_groups_total[OF cs] by blast
  moreover have "filter is_digit s = s" using assms(2) by (simp add: filter_id_conv)
  ultimately show ?thesis
    using s c assms(3) by (auto simp: int_of_str_def unsigned_of_str_def digit_facts)
qed

lemma int_of_str_long:
  assumes "\<forall>c\<in>set s. is_digit c" and "max_str_digits < length s"
  shows "int_of_str s = None"
proof -
  have ne: "s \<noteq> []" using assms(2) by auto
  then obtain c cs where s: "s = c # cs" by (cases s) auto
  have "strip_by is_int_space s = s"
    using assms(1) ne by (intro strip_by_id) (auto simp: digit_facts)
  moreover have "filter is_digit s = s" using assms(1) by (simp add: filter_id_conv)
  ultimately show ?thesis
    using s assms by (auto simp: int_of_str_def unsigned_of_str_def digit_facts)
qed

lemma cutoff_pattern_group:
  assumes "re_search False cutoff_pattern s = Some m"
  shows "grp1 m \<noteq> [] \<and> (\<forall>c\<in>set (grp1 m). is_digit c)"
proof -
  have "captures False cutoff_pattern (\<lambda>v. 1 \<le> length v \<and> (\<forall>d\<in>set v. atom_ok False (Set [Dg]) d))"
    unfolding cutoff_pattern_def cat.simps
    apply (rule captures_Seq)+
    apply (rule captures_Grp_Rep)
    done
  from captures_search[OF this assms] show ?thesis by (auto simp: grp1_def)
qed

text \<open>
  Claim C5, as stated, fails on its example: the pattern of line 272 wants \<^verbatim>\<open>cutoff\<close> followed
  by colons or whitespace and then the digits, so a page that says \<^verbatim>\<open>cutoff of 10\<close> gives no
  cutoff. The tabular branch then declines, whatever the file holds, and the answer is the
  fallback's: here, with no model to ask, the string \<^verbatim>\<open>error\<close>, not 37.
\<close>

theorem tabular_sum_counterexample:
  "re_search False cutoff_pattern
      (''Add the numbers in https://quiz.example/data.csv above the cutoff of 10'' @ '' '' @ []) = None
   \<and> solve_question numbers_csv
        ''Add the numbers in https://quiz.example/data.csv above the cutoff of 10''
        ''Add the numbers in https://quiz.example/data.csv above the cutoff of 10'' []
        (PStr ''https://quiz.example/q2'') []
       = (Inr (PStr ''error''),
          [Generate (answer_prompt
             ''Add the numbers in https://quiz.example/data.csv above the cutoff of 10''
             ''Add the numbers in https://quiz.example/data.csv above the cutoff of 10''),
           ReadCsv ''https://quiz.example/data.csv''])
   \<and> fst (solve_question numbers_csv
        ''Add the numbers in https://quiz.example/data.csv above the cutoff of 10''
        ''Add the numbers in https://quiz.example/data.csv above the cutoff of 10'' []
        (PStr ''https://quiz.example/q2'') []) \<noteq> Inr (PInt 37)"
proof -
  let ?page = "''Add the numbers in https://quiz.example/data.csv above the cutoff of 10''"
  let ?url = "''https://quiz.example/data.csv''"
  have 1: "re_search True scrape_pattern ?page = None" by code_simp
  have 2: "find_csv_url csv_patterns (?page @ '' '' @ []) = Some ?url" by code_simp
  have 3: "re_search False cutoff_pattern (?page @ '' '' @ []) = None" by code_simp
  have 4: "csv_sum numbers_csv ?url (?page @ '' '' @ []) [] = (Inr None, [ReadCsv ?url])"
    using 3 by (simp add: csv_sum_def Let_def numbers_csv_def offline_def)
  have 5: "gemini_fallback numbers_csv ?page ?page [ReadCsv ?url]
            = (PStr ''error'', [Generate (answer_prompt ?page ?page), ReadCsv ?url])"
    by (simp add: gemini_fallback_def Let_def numbers_csv_def offline_def)
  have 6: "solve_question numbers_csv ?page ?page [] (PStr ''https://quiz.example/q2'') []
            = (Inr (PStr ''error''), [Generate (answer_prompt ?page ?page), ReadCsv ?url])"
    using 1 2 4 5 by (simp add: solve_question_def csv_branch_def Let_def)
  show ?thesis using 3 6 by simp
qed

text \<open>
  Claim C5, amended. When the question has no scrape instruction, the page links a CSV file
  that loads, the pattern of line 272 finds a cutoff in the page, and the first numeric
  column of the file is an \<^verbatim>\<open>int64\<close> column, then, for a cutoff of at most 4300 digits, the
  resolver returns the 64-bit sum of the column's values strictly greater than the cutoff:
  the exact integer sum whenever that sum is below two to the power 63. For the rows 1, 15,
  22, 3 and a page saying \<^verbatim>\<open>Cutoff: 10\<close> it returns 37. For a cutoff of more digits \<^verbatim>\<open>int\<close>
  raises, and the answer is the fallback's.
\<close>

theorem tabular_sum:
  assumes "re_search True scrape_pattern question = None"
    and "find_csv_url csv_patterns (page_text @ '' '' @ page_html) = Some u" and "u \<noteq> []"
    and "(if \<not> startswith u ''http'' then urljoin E base_url u else Inr u) = Inr csv_url"
    and "read_csv E (ReadCsv csv_url # lg) csv_url = Inr df"
    and "re_search False cutoff_pattern (page_text @ '' '' @ page_html) = Some m"
    and "filter is_numeric df = IntCol vs # others"
  shows "(length (grp1 m) \<le> max_str_digits \<longrightarrow>
           (\<exists>cutoff. int_of_str (grp1 m) = Some cutoff \<and> 0 \<le> cutoff
              \<and> solve_question E question page_text page_html base_url lg
                  = (Inr (PInt (sint (sum_list (filter (\<lambda>v. cutoff < sint v) vs)))), ReadCsv csv_url # lg)
              \<and> (exact_sum_above vs cutoff < 2 ^ 63 \<longrightarrow>
                    solve_question E question page_text page_html base_url lg
                      = (Inr (PInt (exact_sum_above vs cutoff)), ReadCsv csv_url # lg))))
       \<and> (max_str_digits < length (grp1 m) \<longrightarrow>
            solve_question E question page_text page_html base_url lg
              = (Inr (fst (gemini_fallback E question page_text (ReadCsv csv_url # lg))),
                 snd (gemini_fallback E question page_text (ReadCsv csv_url # lg))))"
proof (intro conjI impI)
  assume len: "length (grp1 m) \<le> max_str_digits"
  from cutoff_pattern_group[OF assms(6)] int_of_str_digits[of "grp1 m"] len
  obtain n where n: "int_of_str (grp1 m) = Some (int n)" by blast
  have cs: "csv_sum E csv_url (page_text @ '' '' @ page_html) lg
            = (Inr (Some (sint (sum_list (filter (\<lambda>v. int n < sint v) vs)))), ReadCsv csv_url # lg)"
    using assms(5,6,7) n by (simp add: csv_sum_def Let_def sum_above_def)
  have sq: "solve_question E question page_text page_html base_url lg
               = (Inr (PInt (sint (sum_list (filter (\<lambda>v. int n < sint v) vs)))), ReadCsv csv_url # lg)"
    using assms(1,2,3,4) cs by (simp add: solve_question_def csv_branch_def Let_def)
  have ex: "exact_sum_above vs (int n) < 2 ^ 63 \<Longrightarrow>
      sint (sum_list (filter (\<lambda>v. int n < sint v) vs)) = exact_sum_above vs (int n)"
    using sum_above_exact[of "int n" vs E] by (simp add: sum_above_def)
  show "\<exists>cutoff. int_of_str (grp1 m) = Some cutoff \<and> 0 \<le> cutoff
              \<and> solve_question E question page_text page_html base_url lg
                  = (Inr (PInt (sint (sum_list (filter (\<lambda>v. cutoff < sint v) vs)))), ReadCsv csv_url # lg)
              \<and> (exact_sum_above vs cutoff < 2 ^ 63 \<longrightarrow>
                    solve_question E question page_text page_html base_url lg
                      = (Inr (PInt (exact_sum_above vs cutoff)), ReadCsv csv_url # lg))"
    apply (rule exI[of _ "int n"])
    using n sq ex by simp
next
  assume len: "max_str_digits < length (grp1 m)"
  from cutoff_pattern_group[OF assms(6)] int_of_str_long[of "grp1 m"] len
  have n: "int_of_str (grp1 m) = None" by blast
  have cs: "\<exists>e. csv_sum E csv_url (page_text @ '' '' @ page_html) lg = (Inl e, ReadCsv csv_url # lg)"
    using assms(5,6) n by (simp add: csv_sum_def Let_def)
  then obtain e where e: "csv_sum E csv_url (page_text @ '' '' @ page_html) lg = (Inl e, ReadCsv csv_url # lg)"
    by blast
  show "solve_question E question page_text page_html base_url lg
              = (Inr (fst (gemini_fallback E question page_text (ReadCsv csv_url # lg))),
                 snd (gemini_fallback E question page_text (ReadCsv csv_url # lg)))"
    using assms(1,2,3,4) e by (simp add: solve_question_def csv_branch_def Let_def split: prod.splits)
qed

text \<open>The rows 1, 15, 22, 3 and \<^verbatim>\<open>Cutoff: 10\<close>: the answer is 37.\<close>

theorem tabular_sum_witness:
  "re_search True scrape_pattern ''Data: https://quiz.example/data.csv Cutoff: 10'' = None
   \<and> find_csv_url csv_patterns (''Data: https://quiz.example/data.csv Cutoff: 10'' @ '' '' @ [])
       = Some ''https://quiz.example/data.csv''
   \<and> startswith ''https://quiz.example/data.csv'' ''http''
   \<and> read_csv numbers_csv [ReadCsv ''https://quiz.example/data.csv''] ''https://quiz.example/data.csv''
       = Inr [IntCol [1, 15, 22, 3]]
   \<and> map_option grp1 (re_search False cutoff_pattern (''Data: https://quiz.example/data.csv Cutoff: 10'' @ '' '' @ []))
       = Some ''10''
   \<and> filter is_numeric [IntCol [1, 15, 22, 3]] = [IntCol [1, 15, 22, 3]]
   \<and> length ''10'' \<le> max_str_digits
   \<and> exact_sum_above [1, 15, 22, 3] 10 = 37
   \<and> solve_question numbers_csv ''Data: https://quiz.example/data.csv Cutoff: 10''
        ''Data: https://quiz.example/data.csv Cutoff: 10'' [] (PStr ''https://quiz.example/q2'') []
       = (Inr (PInt 37), [ReadCsv ''https://quiz.example/data.csv''])"
proof -
  let ?page = "''Data: https://quiz.example/data.csv Cutoff: 10''"
  let ?url = "''https://quiz.example/data.csv''"
  have 1: "re_search True scrape_pattern ?page = None" by code_simp
  have 2: "find_csv_url csv_patterns (?page @ '' '' @ []) = Some ?url" by code_simp
  have 3: "startswith ?url ''http''" by simp
  have 4: "read_csv numbers_csv [ReadCsv ?url] ?url = Inr [IntCol [1, 15, 22, 3]]"
    by (simp add: numbers_csv_def offline_def)
  have 5: "re_search False cutoff_pattern (?page @ '' '' @ [])
            = Some \<lparr>whole = ''Cutoff: 10'', group1 = Some ''10'', after = '' '', before_end = Some CHR ''0''\<rparr>"
    by code_simp
  have 6: "filter is_numeric [IntCol [1, 15, 22, 3]] = [IntCol [1, 15, 22, 3]]" by simp
  have 7: "int_of_str ''10'' = Some 10" by code_simp
  have 8: "exact_sum_above [1, 15, 22, 3] 10 = 37" by (simp add: exact_sum_above_def)
  have 9: "(if \<not> startswith ?url ''http'' then urljoin numbers_csv (PStr ''https://quiz.example/q2'') ?url else Inr ?url) = Inr ?url"
    by simp
  show ?thesis
    using tabular_sum[OF 1 2 _ 9 4 5, of "[1, 15, 22, 3]" "[]"] 1 2 4 5 7 8
    by (simp add: grp1_def max_str_digits_def)
qed

section \<open>The scrape branch\<close>





end
